theory Spec2Isabelle
  imports Complex_Main "HOL-Library.AList"
begin

section \<open>Values, errors and the SPICE interface\<close>

text \<open>
  The script \<^verbatim>\<open>make_ola_high_low_ck.py\<close> drives the SPICE toolkit through the module
  \<^verbatim>\<open>spiceypy\<close> (imported as \<^verbatim>\<open>sp\<close>). The toolkit is not part of the repository, so
  every \<^verbatim>\<open>sp.*\<close> call is a parameter of the model. The toolkit keeps process-wide state
  (the kernel pool, open files), so the answer of a call is a function of the calls made
  so far: the model keeps the list of calls with their answers, and every \<^verbatim>\<open>sp.*\<close> call
  appends one event to it, whether it returns or raises.

  Python floats are modelled as real numbers: comparisons are exact on finite floats,
  the rounding of \<^verbatim>\<open>+\<close>, \<^verbatim>\<open>-\<close> and \<^verbatim>\<open>/\<close> is not modelled. Python integers are \<open>int\<close>.
  Strings are lists of characters; the names handled here are ASCII.
\<close>

datatype error =
    SpiceError string
  | KeyError string
  | KeyErrorFloat real
  | IndexError
  | AssertionError
  | ZeroDivisionError

type_synonym matrix = "real list list"
type_synonym quat = "real list"

text \<open>The arguments of one \<^verbatim>\<open>sp.ckw02\<close> call, after the handle.\<close>

record segment =
  begtim :: real
  endtim :: real
  inst :: int
  ref :: string
  segid :: string
  nrec :: int
  start :: "real list"
  stop :: "real list"
  quats :: "quat list"
  avvs :: "real list list"
  rates :: "real list"

datatype event =
    is_Furnsh: Furnsh string "error + unit"
  | is_Unload: Unload string "error + unit"
  | is_Kclear: Kclear "error + unit"
  | is_Ktotal: Ktotal string "error + int"
  | is_Exists: Exists string "error + bool"
  | is_Gipool: Gipool string int int "error + int list"
  | is_Gcpool: Gcpool string int int int "error + string list"
  | is_Gdpool: Gdpool string int int "error + real list"
  | is_Stpool: Stpool string int string int "error + string \<times> int"
  | is_Sce2t: Sce2t int real "error + real"
  | is_Sct2e: Sct2e int real "error + real"
  | is_Pxform: Pxform string string real "error + matrix"
  | is_M2q: M2q matrix "error + quat"
  | is_Vnorm: Vnorm "real list" "error + real"
  | is_Ckopn: Ckopn string string int "error + int"
  | is_Ckw02: Ckw02 int segment "error + unit"
  | is_Ckcls: Ckcls int "error + unit"

record spice =
  sp_furnsh :: "event list \<Rightarrow> string \<Rightarrow> error + unit"
  sp_unload :: "event list \<Rightarrow> string \<Rightarrow> error + unit"
  sp_kclear :: "event list \<Rightarrow> error + unit"
  sp_ktotal :: "event list \<Rightarrow> string \<Rightarrow> error + int"
  sp_exists :: "event list \<Rightarrow> string \<Rightarrow> error + bool"
  sp_gipool :: "event list \<Rightarrow> string \<Rightarrow> int \<Rightarrow> int \<Rightarrow> error + int list"
  sp_gcpool :: "event list \<Rightarrow> string \<Rightarrow> int \<Rightarrow> int \<Rightarrow> int \<Rightarrow> error + string list"
  sp_gdpool :: "event list \<Rightarrow> string \<Rightarrow> int \<Rightarrow> int \<Rightarrow> error + real list"
  sp_stpool :: "event list \<Rightarrow> string \<Rightarrow> int \<Rightarrow> string \<Rightarrow> int \<Rightarrow> error + string \<times> int"
  sp_sce2t :: "event list \<Rightarrow> int \<Rightarrow> real \<Rightarrow> error + real"
  sp_sct2e :: "event list \<Rightarrow> int \<Rightarrow> real \<Rightarrow> error + real"
  sp_pxform :: "event list \<Rightarrow> string \<Rightarrow> string \<Rightarrow> real \<Rightarrow> error + matrix"
  sp_m2q :: "event list \<Rightarrow> matrix \<Rightarrow> error + quat"
  sp_vnorm :: "event list \<Rightarrow> real list \<Rightarrow> error + real"
  sp_ckopn :: "event list \<Rightarrow> string \<Rightarrow> string \<Rightarrow> int \<Rightarrow> error + int"
  sp_ckw02 :: "event list \<Rightarrow> int \<Rightarrow> segment \<Rightarrow> error + unit"
  sp_ckcls :: "event list \<Rightarrow> int \<Rightarrow> error + unit"

section \<open>Program state\<close>

text \<open>
  The list objects \<^verbatim>\<open>fks\<close> and \<^verbatim>\<open>stop_ets\<close> are mutated in place by \<^verbatim>\<open>pop\<close>, and
  \<^verbatim>\<open>main\<close> passes copies of them: they live in a store, addressed by references. The
  rows printed by \<^verbatim>\<open>test_ck\<close> are kept in \<open>stdout\<close>.
\<close>

record row =
  row_fk :: string
  row_quat_error :: real
  row_relative_reffrm :: string
  row_reffrm :: string
  row_et :: real

record state =
  strs :: "nat \<Rightarrow> string list"
  reals :: "nat \<Rightarrow> real list"
  next_ref :: nat
  trace :: "event list"
  stdout :: "row list"

type_synonym 'a io = "state \<Rightarrow> (error + 'a) \<times> state"

definition return :: "'a \<Rightarrow> 'a io" where
  "return x s = (Inr x, s)"

definition raise :: "error \<Rightarrow> 'a io" where
  "raise e s = (Inl e, s)"

definition bnd :: "'a io \<Rightarrow> ('a \<Rightarrow> 'b io) \<Rightarrow> 'b io" where
  "bnd m f s = (case m s of (Inl e, s') \<Rightarrow> (Inl e, s') | (Inr x, s') \<Rightarrow> f x s')"

text \<open>One \<^verbatim>\<open>sp.*\<close> call: ask the toolkit, record the call and its answer.\<close>

definition call :: "(event list \<Rightarrow> error + 'a) \<Rightarrow> ((error + 'a) \<Rightarrow> event) \<Rightarrow> 'a io" where
  "call f mk s = (let r = f (trace s) in (r, s\<lparr>trace := trace s @ [mk r]\<rparr>))"

definition furnsh :: "spice \<Rightarrow> string \<Rightarrow> unit io" where
  "furnsh ops k = call (\<lambda>h. sp_furnsh ops h k) (Furnsh k)"

definition unload :: "spice \<Rightarrow> string \<Rightarrow> unit io" where
  "unload ops k = call (\<lambda>h. sp_unload ops h k) (Unload k)"

definition kclear :: "spice \<Rightarrow> unit io" where
  "kclear ops = call (\<lambda>h. sp_kclear ops h) Kclear"

definition ktotal :: "spice \<Rightarrow> string \<Rightarrow> int io" where
  "ktotal ops k = call (\<lambda>h. sp_ktotal ops h k) (Ktotal k)"

definition exists :: "spice \<Rightarrow> string \<Rightarrow> bool io" where
  "exists ops p = call (\<lambda>h. sp_exists ops h p) (Exists p)"

definition gipool :: "spice \<Rightarrow> string \<Rightarrow> int \<Rightarrow> int \<Rightarrow> int list io" where
  "gipool ops n a b = call (\<lambda>h. sp_gipool ops h n a b) (Gipool n a b)"

definition gcpool :: "spice \<Rightarrow> string \<Rightarrow> int \<Rightarrow> int \<Rightarrow> int \<Rightarrow> string list io" where
  "gcpool ops n a b c = call (\<lambda>h. sp_gcpool ops h n a b c) (Gcpool n a b c)"

definition gdpool :: "spice \<Rightarrow> string \<Rightarrow> int \<Rightarrow> int \<Rightarrow> real list io" where
  "gdpool ops n a b = call (\<lambda>h. sp_gdpool ops h n a b) (Gdpool n a b)"

definition stpool :: "spice \<Rightarrow> string \<Rightarrow> int \<Rightarrow> string \<Rightarrow> int \<Rightarrow> (string \<times> int) io" where
  "stpool ops n i c l = call (\<lambda>h. sp_stpool ops h n i c l) (Stpool n i c l)"

definition sce2t :: "spice \<Rightarrow> int \<Rightarrow> real \<Rightarrow> real io" where
  "sce2t ops c et = call (\<lambda>h. sp_sce2t ops h c et) (Sce2t c et)"

definition sct2e :: "spice \<Rightarrow> int \<Rightarrow> real \<Rightarrow> real io" where
  "sct2e ops c t = call (\<lambda>h. sp_sct2e ops h c t) (Sct2e c t)"

definition pxform :: "spice \<Rightarrow> string \<Rightarrow> string \<Rightarrow> real \<Rightarrow> matrix io" where
  "pxform ops a b et = call (\<lambda>h. sp_pxform ops h a b et) (Pxform a b et)"

definition m2q :: "spice \<Rightarrow> matrix \<Rightarrow> quat io" where
  "m2q ops m = call (\<lambda>h. sp_m2q ops h m) (M2q m)"

definition vnorm :: "spice \<Rightarrow> real list \<Rightarrow> real io" where
  "vnorm ops v = call (\<lambda>h. sp_vnorm ops h v) (Vnorm v)"

definition ckopn :: "spice \<Rightarrow> string \<Rightarrow> string \<Rightarrow> int \<Rightarrow> int io" where
  "ckopn ops p l n = call (\<lambda>h. sp_ckopn ops h p l n) (Ckopn p l n)"

definition ckw02 :: "spice \<Rightarrow> int \<Rightarrow> segment \<Rightarrow> unit io" where
  "ckw02 ops hdl sg = call (\<lambda>h. sp_ckw02 ops h hdl sg) (Ckw02 hdl sg)"

definition ckcls :: "spice \<Rightarrow> int \<Rightarrow> unit io" where
  "ckcls ops hdl = call (\<lambda>h. sp_ckcls ops h hdl) (Ckcls hdl)"

section \<open>Python helpers\<close>

text \<open>\<^verbatim>\<open>xs[0]\<close> and \<^verbatim>\<open>xs[-1]\<close>: IndexError on the empty list.\<close>

definition index0 :: "'a list \<Rightarrow> 'a io" where
  "index0 xs = (case xs of [] \<Rightarrow> raise IndexError | x # _ \<Rightarrow> return x)"

definition index_last :: "'a list \<Rightarrow> 'a io" where
  "index_last xs = (if xs = [] then raise IndexError else return (last xs))"

text \<open>\<^verbatim>\<open>xs.pop()\<close> on a list object of the store.\<close>

definition pop_str :: "nat \<Rightarrow> string io" where
  "pop_str r s = (if strs s r = [] then (Inl IndexError, s)
     else (Inr (last (strs s r)), s\<lparr>strs := (strs s)(r := butlast (strs s r))\<rparr>))"

definition pop_real :: "nat \<Rightarrow> real io" where
  "pop_real r s = (if reals s r = [] then (Inl IndexError, s)
     else (Inr (last (reals s r)), s\<lparr>reals := (reals s)(r := butlast (reals s r))\<rparr>))"

text \<open>\<^verbatim>\<open>'{}'.format(n)\<close> for an integer: its decimal digits, with a sign.\<close>

definition digit_char :: "nat \<Rightarrow> char" where
  "digit_char d = ''0123456789'' ! d"

function nat_digits :: "nat \<Rightarrow> string" where
  "nat_digits n = (if n < 10 then [digit_char n] else nat_digits (n div 10) @ [digit_char (n mod 10)])"
  by pat_completeness auto
termination
  by (relation "measure (\<lambda>n. n)") auto

definition int_str :: "int \<Rightarrow> string" where
  "int_str i = (if i < 0 then CHR ''-'' # nat_digits (nat (- i)) else nat_digits (nat i))"

text \<open>\<^verbatim>\<open>str.upper\<close> on ASCII letters.\<close>

definition upper_char :: "char \<Rightarrow> char" where
  "upper_char c =
     (case map_of (zip ''abcdefghijklmnopqrstuvwxyz'' ''ABCDEFGHIJKLMNOPQRSTUVWXYZ'') c of
        None \<Rightarrow> c
      | Some u \<Rightarrow> u)"

definition upper :: "string \<Rightarrow> string" where
  "upper s = map upper_char s"

text \<open>\<^verbatim>\<open>os.path.basename\<close> (POSIX): what follows the last slash.\<close>

definition basename :: "string \<Rightarrow> string" where
  "basename p = rev (takeWhile (\<lambda>c. c \<noteq> CHR ''/'') (rev p))"

text \<open>The float literal \<^verbatim>\<open>1e30\<close> is the double nearest to \<open>10 ^ 30\<close>.\<close>

definition py_1e30 :: real where
  "py_1e30 = 1000000000000000019884624838656"

section \<open>\<^verbatim>\<open>create_ck\<close>\<close>

text \<open>\<^verbatim>\<open>for kernel in kernels: sp.furnsh(kernel)\<close>\<close>

fun furnsh_all :: "spice \<Rightarrow> string list \<Rightarrow> unit io" where
  "furnsh_all ops [] = return ()"
| "furnsh_all ops (k # ks) = bnd (furnsh ops k) (\<lambda>_. furnsh_all ops ks)"

text \<open>
  The body of the inner loop of \<^verbatim>\<open>create_ck\<close> (lines 104-162), for one old FK \<open>fk\<close> with its
  stop time \<open>stop_et\<close> and one frame \<open>reffrm\<close>. \<open>last_et\<close> and \<open>ck_handle\<close> are the
  variables of the enclosing function; the body returns the new \<open>ck_handle\<close>.
  \<open>doVerbose\<close> is the module's flag: the logged line formats \<^verbatim>\<open>1./rate\<close>, which raises
  when the rate is zero. What is printed by the logging is not modelled.
\<close>

definition frame_body ::
  "spice \<Rightarrow> bool \<Rightarrow> string \<Rightarrow> string \<Rightarrow> real \<Rightarrow> real option \<Rightarrow> int option \<Rightarrow> string \<Rightarrow> (int option) io" where
  "frame_body ops doVerbose output_ck fk stop_et last_et ck_handle reffrm =
    bnd (gipool ops (''FRAME_'' @ upper reffrm) 0 1) (\<lambda>ids.
    bnd (index0 ids) (\<lambda>reffrm_id.
    bnd (gipool ops (''CK_'' @ int_str reffrm_id @ ''_SCLK'') 0 1) (\<lambda>sclks.
    bnd (index0 sclks) (\<lambda>sclk_id.
    bnd (case last_et of None \<Rightarrow> return 0 | Some t \<Rightarrow> sce2t ops sclk_id t) (\<lambda>begtim.
    bnd (furnsh ops fk) (\<lambda>_.
    bnd (gcpool ops (''TKFRAME_'' @ int_str reffrm_id @ ''_RELATIVE'') 0 1 99) (\<lambda>rels.
    bnd (index0 rels) (\<lambda>relative_reffrm.
    bnd (pxform ops relative_reffrm reffrm 0) (\<lambda>mtx.
    bnd (unload ops fk) (\<lambda>_.
    bnd (m2q ops mtx) (\<lambda>quat.
    bnd (sct2e ops sclk_id 1000) (\<lambda>t1.
    bnd (sct2e ops sclk_id 0) (\<lambda>t0.
    bnd (return ((t1 - t0) / 1000)) (\<lambda>rate.
    bnd (if doVerbose \<and> rate = 0 then raise ZeroDivisionError else return ()) (\<lambda>_.
    bnd (if stop_et < - py_1e30
         then bnd (gdpool ops (''SCLK_PARTITION_END_'' @ int_str (- sclk_id)) 0 999) index_last
         else sce2t ops sclk_id stop_et) (\<lambda>endtim.
    bnd (case ck_handle of None \<Rightarrow> ckopn ops output_ck ''ORX FK REPLACEMENT'' 0
                          | Some h \<Rightarrow> return h) (\<lambda>h.
    bnd (ckw02 ops h
          \<lparr>begtim = begtim, endtim = endtim, inst = reffrm_id, ref = relative_reffrm,
           segid = take 40 (basename fk @ ''['' @ reffrm @ '']''), nrec = 1,
           start = [begtim], stop = [endtim], quats = [quat], avvs = [[0, 0, 0]],
           rates = [rate]\<rparr>) (\<lambda>_.
    return (Some h)))))))))))))))))))"

text \<open>\<^verbatim>\<open>for reffrm in frames_to_convert: ...\<close>\<close>

fun frames_loop ::
  "spice \<Rightarrow> bool \<Rightarrow> string \<Rightarrow> string \<Rightarrow> real \<Rightarrow> real option \<Rightarrow> int option \<Rightarrow> string list \<Rightarrow> (int option) io" where
  "frames_loop ops doVerbose output_ck fk stop_et last_et ck_handle [] = return ck_handle"
| "frames_loop ops doVerbose output_ck fk stop_et last_et ck_handle (reffrm # rest) =
     bnd (frame_body ops doVerbose output_ck fk stop_et last_et ck_handle reffrm)
       (\<lambda>h. frames_loop ops doVerbose output_ck fk stop_et last_et h rest)"


text \<open>Events appended by a computation that touches nothing but the trace.\<close>

definition grows :: "'a io \<Rightarrow> (error + 'a \<Rightarrow> event list \<Rightarrow> bool) \<Rightarrow> bool" where
  "grows m Q = (\<forall>s r s'. m s = (r, s') \<longrightarrow> (\<exists>evs. s' = s\<lparr>trace := trace s @ evs\<rparr> \<and> Q r evs))"

lemma growsD:
  "grows m Q \<Longrightarrow> m s = (r, s') \<Longrightarrow> \<exists>evs. s' = s\<lparr>trace := trace s @ evs\<rparr> \<and> Q r evs"
  by (simp add: grows_def)

lemma grows_weaken: "grows m Q \<Longrightarrow> (\<And>r evs. Q r evs \<Longrightarrow> Q' r evs) \<Longrightarrow> grows m Q'"
  unfolding grows_def by blast

lemma grows_return: "grows (return x) (\<lambda>r evs. r = Inr x \<and> evs = [])"
  by (simp add: grows_def return_def)

lemma grows_raise: "grows (raise e) (\<lambda>r evs. r = Inl e \<and> evs = [])"
  by (simp add: grows_def raise_def)

lemma grows_call: "grows (call f mk) (\<lambda>r evs. evs = [mk r])"
  by (auto simp: grows_def call_def Let_def)

lemma grows_bnd:
  assumes m: "grows m Q" and f: "\<And>x. grows (f x) (R x)"
  shows "grows (bnd m f) (\<lambda>r evs. (\<exists>e. r = Inl e \<and> Q (Inl e) evs) \<or>
            (\<exists>x e1 e2. evs = e1 @ e2 \<and> Q (Inr x) e1 \<and> R x r e2))"
  unfolding grows_def
proof (intro allI impI)
  fix s r s'
  assume run: "bnd m f s = (r, s')"
  obtain r1 s1 where m1: "m s = (r1, s1)" by (cases "m s")
  from growsD [OF m m1] obtain e1 where s1: "s1 = s\<lparr>trace := trace s @ e1\<rparr>" and q: "Q r1 e1"
    by blast
  show "\<exists>evs. s' = s\<lparr>trace := trace s @ evs\<rparr> \<and>
          ((\<exists>e. r = Inl e \<and> Q (Inl e) evs) \<or>
           (\<exists>x e1 e2. evs = e1 @ e2 \<and> Q (Inr x) e1 \<and> R x r e2))"
  proof (cases r1)
    case (Inl e)
    with run m1 have "r = Inl e" "s' = s1" by (simp_all add: bnd_def)
    with s1 q Inl show ?thesis by blast
  next
    case (Inr x)
    with run m1 have fx: "f x s1 = (r, s')" by (simp add: bnd_def)
    from growsD [OF f fx] obtain e2 where s': "s' = s1\<lparr>trace := trace s1 @ e2\<rparr>"
      and rr: "R x r e2" by blast
    from s' s1 have "s' = s\<lparr>trace := trace s @ (e1 @ e2)\<rparr>" by simp
    with rr q Inr show ?thesis by blast
  qed
qed

named_theorems gi \<open>what a computation appends to the trace\<close>

lemmas [gi] = grows_return grows_raise grows_bnd

lemma grows_if [gi]:
  "grows m1 Q1 \<Longrightarrow> grows m2 Q2 \<Longrightarrow>
   grows (if b then m1 else m2) (\<lambda>r evs. (b \<and> Q1 r evs) \<or> (\<not> b \<and> Q2 r evs))"
  by simp

lemma grows_case_option [gi]:
  "grows m1 Q1 \<Longrightarrow> (\<And>x. grows (m2 x) (Q2 x)) \<Longrightarrow>
   grows (case opt of None \<Rightarrow> m1 | Some x \<Rightarrow> m2 x)
     (\<lambda>r evs. (opt = None \<and> Q1 r evs) \<or> (\<exists>x. opt = Some x \<and> Q2 x r evs))"
  by (cases opt) simp_all

lemma grows_index0 [gi]:
  "grows (index0 xs)
     (\<lambda>r evs. evs = [] \<and> ((xs = [] \<and> r = Inl IndexError) \<or> (\<exists>x t. xs = x # t \<and> r = Inr x)))"
  by (cases xs) (simp_all add: index0_def grows_def return_def raise_def)

lemma grows_index_last [gi]:
  "grows (index_last xs)
     (\<lambda>r evs. evs = [] \<and> ((xs = [] \<and> r = Inl IndexError) \<or> (xs \<noteq> [] \<and> r = Inr (last xs))))"
  by (simp_all add: index_last_def grows_def return_def raise_def)

lemma grows_gipool [gi]: "grows (gipool ops n a b) (\<lambda>r evs. evs = [Gipool n a b r])"
  unfolding gipool_def by (rule grows_call)

lemma grows_gcpool [gi]: "grows (gcpool ops n a b c) (\<lambda>r evs. evs = [Gcpool n a b c r])"
  unfolding gcpool_def by (rule grows_call)

lemma grows_gdpool [gi]: "grows (gdpool ops n a b) (\<lambda>r evs. evs = [Gdpool n a b r])"
  unfolding gdpool_def by (rule grows_call)

lemma grows_stpool [gi]: "grows (stpool ops n i c l) (\<lambda>r evs. evs = [Stpool n i c l r])"
  unfolding stpool_def by (rule grows_call)

lemma grows_furnsh [gi]: "grows (furnsh ops k) (\<lambda>r evs. evs = [Furnsh k r])"
  unfolding furnsh_def by (rule grows_call)

lemma grows_unload [gi]: "grows (unload ops k) (\<lambda>r evs. evs = [Unload k r])"
  unfolding unload_def by (rule grows_call)

lemma grows_ktotal [gi]: "grows (ktotal ops k) (\<lambda>r evs. evs = [Ktotal k r])"
  unfolding ktotal_def by (rule grows_call)

lemma grows_exists [gi]: "grows (exists ops k) (\<lambda>r evs. evs = [Exists k r])"
  unfolding exists_def by (rule grows_call)

lemma grows_sce2t [gi]: "grows (sce2t ops c et) (\<lambda>r evs. evs = [Sce2t c et r])"
  unfolding sce2t_def by (rule grows_call)

lemma grows_sct2e [gi]: "grows (sct2e ops c et) (\<lambda>r evs. evs = [Sct2e c et r])"
  unfolding sct2e_def by (rule grows_call)

lemma grows_pxform [gi]: "grows (pxform ops a b et) (\<lambda>r evs. evs = [Pxform a b et r])"
  unfolding pxform_def by (rule grows_call)

lemma grows_m2q [gi]: "grows (m2q ops m) (\<lambda>r evs. evs = [M2q m r])"
  unfolding m2q_def by (rule grows_call)

lemma grows_vnorm [gi]: "grows (vnorm ops v) (\<lambda>r evs. evs = [Vnorm v r])"
  unfolding vnorm_def by (rule grows_call)

lemma grows_ckopn [gi]: "grows (ckopn ops p l n) (\<lambda>r evs. evs = [Ckopn p l n r])"
  unfolding ckopn_def by (rule grows_call)

lemma grows_ckw02 [gi]: "grows (ckw02 ops hdl sg) (\<lambda>r evs. evs = [Ckw02 hdl sg r])"
  unfolding ckw02_def by (rule grows_call)

lemma grows_ckcls [gi]: "grows (ckcls ops hdl) (\<lambda>r evs. evs = [Ckcls hdl r])"
  unfolding ckcls_def by (rule grows_call)

lemma grows_kclear [gi]: "grows (kclear ops) (\<lambda>r evs. evs = [Kclear r])"
  unfolding kclear_def by (rule grows_call)

lemma grows_frame_body_any:
  "grows (frame_body ops doVerbose output_ck fk stop_et last_et ck_handle reffrm) (\<lambda>r evs. True)"
  unfolding frame_body_def
  by (rule grows_weaken, (rule gi)+) simp

lemma grows_frames_loop_any:
  "grows (frames_loop ops doVerbose output_ck fk stop_et last_et ck_handle frames) (\<lambda>r evs. True)"
proof (induction frames arbitrary: ck_handle)
  case Nil
  show ?case by (simp, rule grows_weaken, rule grows_return) simp
next
  case (Cons reffrm rest)
  show ?case
    by (simp, rule grows_weaken, rule grows_bnd, rule grows_frame_body_any, rule Cons.IH) simp
qed

lemma frames_loop_strs:
  "frames_loop ops doVerbose output_ck fk stop_et last_et ck_handle frames s = (r, s') \<Longrightarrow>
   strs s' = strs s \<and> reals s' = reals s"
  using growsD [OF grows_frames_loop_any] by fastforce

text \<open>
  \<^verbatim>\<open>while fks: fk = fks.pop(); stop_et = stop_ets.pop(); for reffrm in ...; last_et = stop_et\<close>
  with \<open>fks\<close> and \<open>stop_ets\<close> the references of the two list objects.
\<close>

function windows_loop ::
  "spice \<Rightarrow> bool \<Rightarrow> string \<Rightarrow> string list \<Rightarrow> nat \<Rightarrow> nat \<Rightarrow> real option \<Rightarrow> int option \<Rightarrow> (int option) io" where
  "windows_loop ops doVerbose output_ck frames_to_convert fks stop_ets last_et ck_handle s =
     (if strs s fks = [] then (Inr ck_handle, s)
      else case pop_str fks s of
          (Inl e, s1) \<Rightarrow> (Inl e, s1)
        | (Inr fk, s1) \<Rightarrow>
            (case pop_real stop_ets s1 of
               (Inl e, s2) \<Rightarrow> (Inl e, s2)
             | (Inr stop_et, s2) \<Rightarrow>
                 (case frames_loop ops doVerbose output_ck fk stop_et last_et ck_handle
                         frames_to_convert s2 of
                    (Inl e, s3) \<Rightarrow> (Inl e, s3)
                  | (Inr h, s3) \<Rightarrow>
                      windows_loop ops doVerbose output_ck frames_to_convert fks stop_ets
                        (Some stop_et) h s3)))"
  by pat_completeness auto
termination
proof (relation "measure (\<lambda>(ops, doVerbose, output_ck, frames, fks, stop_ets, last_et, ck_handle, s).
                   length (strs s fks))", goal_cases)
  case 1
  show ?case by simp
next
  case (2 ops doVerbose output_ck frames fks stop_ets last_et ck_handle s x1 s1 fk x2 s2 stop_et x3 s3 h)
  from 2 have s1: "strs s1 fks = butlast (strs s fks)"
    by (auto simp: pop_str_def split: if_splits)
  from 2 have s2: "strs s2 = strs s1"
    by (auto simp: pop_real_def split: if_splits)
  from 2 frames_loop_strs [of ops doVerbose output_ck fk stop_et last_et ck_handle frames s2 "Inr h" s3]
  have s3: "strs s3 = strs s2" by simp
  from 2 s1 s2 s3 show ?case by simp
qed

text \<open>
  \<^verbatim>\<open>create_ck(kernels,frames_to_convert,fks,stop_ets,output_ck)\<close>. The assertion of line 88
  evaluates \<^verbatim>\<open>dict()[...]\<close> when the file exists, which raises KeyError with the message.
\<close>

definition create_ck ::
  "spice \<Rightarrow> bool \<Rightarrow> string list \<Rightarrow> string list \<Rightarrow> nat \<Rightarrow> nat \<Rightarrow> string \<Rightarrow> unit io" where
  "create_ck ops doVerbose kernels frames_to_convert fks stop_ets output_ck =
     bnd (furnsh_all ops kernels) (\<lambda>_.
     bnd (exists ops output_ck) (\<lambda>ex.
     bnd (if ex then raise (KeyError (''Cannot overwrite existing CK['' @ output_ck @ '']''))
          else return ()) (\<lambda>_.
     bnd (windows_loop ops doVerbose output_ck frames_to_convert fks stop_ets None None) (\<lambda>ck_handle.
     case ck_handle of None \<Rightarrow> return () | Some h \<Rightarrow> ckcls ops h))))"

section \<open>\<^verbatim>\<open>test_ck\<close>\<close>

text \<open>
  The dictionary \<^verbatim>\<open>dt\<close>: old FK name to (frame name to
  \<^verbatim>\<open>(relative_reffrm, et_test_lo, et_test_hi, dtquat)\<close>), with \<^verbatim>\<open>dtquat\<close> a dictionary from
  epoch to quaternion. Python dictionaries keep insertion order and assigning to a key
  that is present keeps its place: association lists with \<open>AList.update\<close>.
\<close>

type_synonym dtquat = "(real \<times> quat) list"
type_synonym entry = "string \<times> real \<times> real \<times> dtquat"
type_synonym dt = "(string \<times> (string \<times> entry) list) list"

text \<open>Lines 218-224: the two test epochs of a window from \<open>et_lo\<close> to \<open>stop_et\<close>.\<close>

definition test_ets :: "real \<Rightarrow> real \<Rightarrow> real \<times> real" where
  "test_ets et_lo stop_et =
     (if stop_et < - py_1e30 then (et_lo + 10, et_lo + 1000000)
      else (let et_delta = min 10 ((stop_et - et_lo) / 3)
            in (et_lo + et_delta, stop_et - et_delta)))"

text \<open>\<^verbatim>\<open>dt[fk][reffrm] = e\<close>\<close>

definition set_entry :: "string \<Rightarrow> string \<Rightarrow> entry \<Rightarrow> dt \<Rightarrow> dt io" where
  "set_entry fk reffrm e dt =
     (case map_of dt fk of
        None \<Rightarrow> raise (KeyError fk)
      | Some inner \<Rightarrow> return (AList.update fk (AList.update reffrm e inner) dt))"

text \<open>The body of the first inner loop of \<^verbatim>\<open>test_ck\<close> (lines 200-228).\<close>

definition sample_body ::
  "spice \<Rightarrow> string \<Rightarrow> real \<Rightarrow> real option \<Rightarrow> dt \<Rightarrow> string \<Rightarrow> dt io" where
  "sample_body ops fk stop_et last_et dt reffrm =
    bnd (gipool ops (''FRAME_'' @ upper reffrm) 0 1) (\<lambda>ids.
    bnd (index0 ids) (\<lambda>reffrm_id.
    bnd (gipool ops (''CK_'' @ int_str reffrm_id @ ''_SCLK'') 0 1) (\<lambda>sclks.
    bnd (index0 sclks) (\<lambda>sclk_id.
    bnd (case last_et of None \<Rightarrow> sct2e ops sclk_id 0 | Some t \<Rightarrow> return t) (\<lambda>et_lo.
    bnd (furnsh ops fk) (\<lambda>_.
    bnd (gcpool ops (''TKFRAME_'' @ int_str reffrm_id @ ''_RELATIVE'') 0 1 99) (\<lambda>rels.
    bnd (index0 rels) (\<lambda>relative_reffrm.
    bnd (unload ops fk) (\<lambda>_.
    set_entry fk reffrm
      (relative_reffrm, fst (test_ets et_lo stop_et), snd (test_ets et_lo stop_et), []) dt)))))))))"

fun sample_loop ::
  "spice \<Rightarrow> string \<Rightarrow> real \<Rightarrow> real option \<Rightarrow> dt \<Rightarrow> string list \<Rightarrow> dt io" where
  "sample_loop ops fk stop_et last_et dt [] = return dt"
| "sample_loop ops fk stop_et last_et dt (reffrm # rest) =
     bnd (sample_body ops fk stop_et last_et dt reffrm)
       (\<lambda>dt'. sample_loop ops fk stop_et last_et dt' rest)"

lemma grows_set_entry [gi]:
  "grows (set_entry fk reffrm e dt)
     (\<lambda>r evs. evs = [] \<and> ((map_of dt fk = None \<and> r = Inl (KeyError fk)) \<or>
        (\<exists>inner. map_of dt fk = Some inner \<and>
           r = Inr (AList.update fk (AList.update reffrm e inner) dt))))"
  by (cases "map_of dt fk") (simp_all add: set_entry_def grows_def return_def raise_def)

lemma grows_sample_body_any:
  "grows (sample_body ops fk stop_et last_et dt reffrm) (\<lambda>r evs. True)"
  unfolding sample_body_def
  by (rule grows_weaken, (rule gi)+) simp

lemma grows_sample_loop_any:
  "grows (sample_loop ops fk stop_et last_et dt frames) (\<lambda>r evs. True)"
proof (induction frames arbitrary: dt)
  case Nil
  show ?case by (simp, rule grows_weaken, rule grows_return) simp
next
  case (Cons reffrm rest)
  show ?case
    by (simp, rule grows_weaken, rule grows_bnd, rule grows_sample_body_any, rule Cons.IH) simp
qed

lemma sample_loop_strs:
  "sample_loop ops fk stop_et last_et dt frames s = (r, s') \<Longrightarrow>
   strs s' = strs s \<and> reals s' = reals s"
  using growsD [OF grows_sample_loop_any] by fastforce

text \<open>The first \<^verbatim>\<open>while fks:\<close> loop of \<^verbatim>\<open>test_ck\<close> (lines 187-231).\<close>

function collect_loop ::
  "spice \<Rightarrow> string list \<Rightarrow> nat \<Rightarrow> nat \<Rightarrow> real option \<Rightarrow> dt \<Rightarrow> dt io" where
  "collect_loop ops frames_to_convert fks stop_ets last_et dt s =
     (if strs s fks = [] then (Inr dt, s)
      else case pop_str fks s of
          (Inl e, s1) \<Rightarrow> (Inl e, s1)
        | (Inr fk, s1) \<Rightarrow>
            (case pop_real stop_ets s1 of
               (Inl e, s2) \<Rightarrow> (Inl e, s2)
             | (Inr stop_et, s2) \<Rightarrow>
                 (case sample_loop ops fk stop_et last_et (AList.update fk [] dt)
                         frames_to_convert s2 of
                    (Inl e, s3) \<Rightarrow> (Inl e, s3)
                  | (Inr dt', s3) \<Rightarrow>
                      collect_loop ops frames_to_convert fks stop_ets (Some stop_et) dt' s3)))"
  by pat_completeness auto
termination
proof (relation "measure (\<lambda>(ops, frames, fks, stop_ets, last_et, dt, s). length (strs s fks))",
    goal_cases)
  case 1
  show ?case by simp
next
  case (2 ops frames fks stop_ets last_et dt s x1 s1 fk x2 s2 stop_et x3 s3 dt')
  from 2 have s1: "strs s1 fks = butlast (strs s fks)"
    by (auto simp: pop_str_def split: if_splits)
  from 2 have s2: "strs s2 = strs s1"
    by (auto simp: pop_real_def split: if_splits)
  from 2 sample_loop_strs [of ops fk stop_et last_et "AList.update fk [] dt" frames s2 "Inr dt'" s3]
  have s3: "strs s3 = strs s2" by simp
  from 2 s1 s2 s3 show ?case by simp
qed

text \<open>
  Lines 248-251, \<^verbatim>\<open>for et in (et_test_lo,et_test_hi,): dtquat[et] = sp.m2q(sp.pxform(...))\<close>,
  with the CK loaded.
\<close>

fun ck_ets :: "spice \<Rightarrow> string \<Rightarrow> string \<Rightarrow> dtquat \<Rightarrow> real list \<Rightarrow> dtquat io" where
  "ck_ets ops relative_reffrm reffrm dtquat [] = return dtquat"
| "ck_ets ops relative_reffrm reffrm dtquat (et # ets) =
     bnd (pxform ops relative_reffrm reffrm et) (\<lambda>mtx.
     bnd (m2q ops mtx) (\<lambda>q.
     ck_ets ops relative_reffrm reffrm (AList.update et q dtquat) ets))"

text \<open>\<^verbatim>\<open>for reffrm in dt[fk]: ...\<close> of lines 243-251; the entries come back with their
  \<^verbatim>\<open>dtquat\<close> filled.\<close>

fun ck_frames :: "spice \<Rightarrow> (string \<times> entry) list \<Rightarrow> ((string \<times> entry) list) io" where
  "ck_frames ops [] = return []"
| "ck_frames ops ((reffrm, (relative_reffrm, et_test_lo, et_test_hi, dtquat)) # rest) =
     bnd (ck_ets ops relative_reffrm reffrm dtquat [et_test_lo, et_test_hi]) (\<lambda>dtquat'.
     bnd (ck_frames ops rest) (\<lambda>rest'.
     return ((reffrm, (relative_reffrm, et_test_lo, et_test_hi, dtquat')) # rest')))"

text \<open>\<^verbatim>\<open>for fk in dt: ...\<close> of lines 241-251.\<close>

fun ck_pass :: "spice \<Rightarrow> dt \<Rightarrow> dt io" where
  "ck_pass ops [] = return []"
| "ck_pass ops ((fk, inner) # rest) =
     bnd (ck_frames ops inner) (\<lambda>inner'.
     bnd (ck_pass ops rest) (\<lambda>rest'.
     return ((fk, inner') # rest')))"

text \<open>Subtraction of two numpy vectors, and \<^verbatim>\<open>round(x, 16)\<close>: the nearest multiple of
  \<open>10\<^sup>-\<^sup>1\<^sup>6\<close>, ties to the even one.\<close>

definition vsub :: "real list \<Rightarrow> real list \<Rightarrow> real list" where
  "vsub a b = map (\<lambda>(x, y). x - y) (zip a b)"

definition round_half_even :: "real \<Rightarrow> int" where
  "round_half_even x =
     (let f = \<lfloor>x\<rfloor>; d = x - of_int f
      in if d < 1 / 2 then f else if 1 / 2 < d then f + 1 else if even f then f else f + 1)"

definition py_round :: "real \<Rightarrow> nat \<Rightarrow> real" where
  "py_round x ndigits = of_int (round_half_even (x * 10 ^ ndigits)) / 10 ^ ndigits"

text \<open>\<^verbatim>\<open>print(dict(...))\<close> of lines 275-280; the epoch is kept as a number.\<close>

definition print_row :: "row \<Rightarrow> unit io" where
  "print_row rw s = (Inr (), s\<lparr>stdout := stdout s @ [rw]\<rparr>)"

text \<open>Lines 268-280, with only the old FK loaded.\<close>

fun fk_ets :: "spice \<Rightarrow> string \<Rightarrow> string \<Rightarrow> string \<Rightarrow> dtquat \<Rightarrow> real list \<Rightarrow> unit io" where
  "fk_ets ops fk relative_reffrm reffrm dtquat [] = return ()"
| "fk_ets ops fk relative_reffrm reffrm dtquat (et # ets) =
     bnd (case map_of dtquat et of None \<Rightarrow> raise (KeyErrorFloat et) | Some q \<Rightarrow> return q) (\<lambda>q_ck.
     bnd (pxform ops relative_reffrm reffrm et) (\<lambda>mtx.
     bnd (m2q ops mtx) (\<lambda>q_fk.
     bnd (vnorm ops (vsub q_ck q_fk)) (\<lambda>n.
     bnd (print_row \<lparr>row_fk = fk, row_quat_error = py_round n 16,
            row_relative_reffrm = relative_reffrm, row_reffrm = reffrm, row_et = et\<rparr>) (\<lambda>_.
     fk_ets ops fk relative_reffrm reffrm dtquat ets)))))"

fun fk_frames :: "spice \<Rightarrow> string \<Rightarrow> (string \<times> entry) list \<Rightarrow> unit io" where
  "fk_frames ops fk [] = return ()"
| "fk_frames ops fk ((reffrm, (relative_reffrm, et_test_lo, et_test_hi, dtquat)) # rest) =
     bnd (fk_ets ops fk relative_reffrm reffrm dtquat [et_test_lo, et_test_hi]) (\<lambda>_.
     fk_frames ops fk rest)"

text \<open>\<^verbatim>\<open>sp.kclear(); assert 0 == sp.ktotal('all')\<close>\<close>

definition clear_all :: "spice \<Rightarrow> unit io" where
  "clear_all ops =
     bnd (kclear ops) (\<lambda>_.
     bnd (ktotal ops ''all'') (\<lambda>n.
     if 0 = n then return () else raise AssertionError))"

text \<open>\<^verbatim>\<open>for fk in dt: ...\<close> of lines 254-280.\<close>

fun fk_pass :: "spice \<Rightarrow> dt \<Rightarrow> unit io" where
  "fk_pass ops [] = return ()"
| "fk_pass ops ((fk, inner) # rest) =
     bnd (clear_all ops) (\<lambda>_.
     bnd (furnsh ops fk) (\<lambda>_.
     bnd (fk_frames ops fk inner) (\<lambda>_.
     fk_pass ops rest)))"

text \<open>Lines 177-251: the old FKs are read into \<^verbatim>\<open>dt\<close>, then the CK is asked at every epoch.\<close>

definition first_pass ::
  "spice \<Rightarrow> string list \<Rightarrow> string list \<Rightarrow> nat \<Rightarrow> nat \<Rightarrow> string \<Rightarrow> dt io" where
  "first_pass ops kernels frames_to_convert fks stop_ets output_ck =
     bnd (furnsh_all ops (kernels @ [output_ck])) (\<lambda>_.
     bnd (collect_loop ops frames_to_convert fks stop_ets None []) (\<lambda>dt.
     bnd (clear_all ops) (\<lambda>_.
     bnd (furnsh_all ops (kernels @ [output_ck])) (\<lambda>_.
     ck_pass ops dt))))"

text \<open>\<^verbatim>\<open>test_ck(kernels,frames_to_convert,fks,stop_ets,output_ck)\<close>: the first pass, then the
  loop over the old FKs of lines 253-280.\<close>

definition test_ck ::
  "spice \<Rightarrow> string list \<Rightarrow> string list \<Rightarrow> nat \<Rightarrow> nat \<Rightarrow> string \<Rightarrow> unit io" where
  "test_ck ops kernels frames_to_convert fks stop_ets output_ck =
     bnd (first_pass ops kernels frames_to_convert fks stop_ets output_ck) (fk_pass ops)"

section \<open>\<^verbatim>\<open>main\<close>\<close>

text \<open>Allocation of list objects; \<^verbatim>\<open>xs[:]\<close> allocates a copy.\<close>

definition new_strs :: "string list \<Rightarrow> nat io" where
  "new_strs xs s =
     (Inr (next_ref s), s\<lparr>strs := (strs s)(next_ref s := xs), next_ref := Suc (next_ref s)\<rparr>)"

definition new_reals :: "real list \<Rightarrow> nat io" where
  "new_reals xs s =
     (Inr (next_ref s), s\<lparr>reals := (reals s)(next_ref s := xs), next_ref := Suc (next_ref s)\<rparr>)"

definition copy_strs :: "nat \<Rightarrow> nat io" where
  "copy_strs r s = new_strs (strs s r) s"

definition copy_reals :: "nat \<Rightarrow> nat io" where
  "copy_reals r s = new_reals (reals s r) s"

definition reverse_strs :: "nat \<Rightarrow> unit io" where
  "reverse_strs r s = (Inr (), s\<lparr>strs := (strs s)(r := rev (strs s r))\<rparr>)"

definition reverse_reals :: "nat \<Rightarrow> unit io" where
  "reverse_reals r s = (Inr (), s\<lparr>reals := (reals s)(r := rev (reals s r))\<rparr>)"

definition append_str :: "nat \<Rightarrow> string \<Rightarrow> unit io" where
  "append_str r x s = (Inr (), s\<lparr>strs := (strs s)(r := strs s r @ [x])\<rparr>)"

text \<open>
  Lines 312-321: \<^verbatim>\<open>fks.append(sp.stpool('FKS',item,'+',2048)[0])\<close> until the call raises.
  Nothing bounds the loop, so it is a partial function: \<open>None\<close> is a run that never
  leaves it.
\<close>

partial_function (option) read_fks :: "spice \<Rightarrow> nat \<Rightarrow> int \<Rightarrow> state \<Rightarrow> state option" where
  "read_fks ops fks item s =
     (case stpool ops ''FKS'' item ''+'' 2048 s of
        (Inl e, s1) \<Rightarrow> Some s1
      | (Inr v, s1) \<Rightarrow> read_fks ops fks (item + 1) (snd (append_str fks (fst v) s1)))"

text \<open>Line 300: the script itself is the kernel when none is given.\<close>

definition default_kernel :: "string \<Rightarrow> string" where
  "default_kernel file =
     (if drop (length file - 4) (butlast file) = ''.py'' \<and> butlast file \<noteq> [] then butlast file
      else file)"

definition py_assert :: "bool \<Rightarrow> unit io" where
  "py_assert b = (if b then return () else raise AssertionError)"

text \<open>Lines 297-307, up to the loop that reads \<^verbatim>\<open>FKS\<close>.\<close>

definition main_kernels :: "string \<Rightarrow> string list \<Rightarrow> string list" where
  "main_kernels file argv_arg =
     (let kernels = filter (\<lambda>arg. arg \<notin> {''--test'', ''--create''}) argv_arg
      in if kernels = [] then [default_kernel file] else kernels)"

definition main_begin :: "spice \<Rightarrow> string list \<Rightarrow> (string list \<times> nat) io" where
  "main_begin ops kernels =
     bnd (furnsh_all ops kernels) (\<lambda>_.
     bnd (gcpool ops ''FRAMES_TO_CONVERT'' 0 999 99) (\<lambda>frames_to_convert.
     bnd (py_assert (frames_to_convert \<noteq> [])) (\<lambda>_.
     bnd (new_strs []) (\<lambda>fks.
     return (frames_to_convert, fks)))))"

text \<open>Lines 324-340, after the loop: the stop times, both lists reversed, the output path.\<close>

definition main_lists :: "spice \<Rightarrow> nat \<Rightarrow> (nat \<times> string) io" where
  "main_lists ops fks =
     bnd (\<lambda>s. py_assert (strs s fks \<noteq> []) s) (\<lambda>_.
     bnd (gdpool ops ''STOP_ETS'' 0 999) (\<lambda>vals.
     bnd (new_reals vals) (\<lambda>stop_ets.
     bnd (\<lambda>s. py_assert (length (strs s fks) = length (reals s stop_ets)) s) (\<lambda>_.
     bnd (reverse_strs fks) (\<lambda>_.
     bnd (reverse_reals stop_ets) (\<lambda>_.
     bnd (stpool ops ''OUTPUT_CK'' 0 ''+'' 2048) (\<lambda>v.
     bnd (return (fst v)) (\<lambda>output_ck.
     bnd (kclear ops) (\<lambda>_.
     return (stop_ets, output_ck))))))))))"

text \<open>Lines 342-348: the two calls, each with copies of the lists.\<close>

definition main_run ::
  "spice \<Rightarrow> bool \<Rightarrow> string list \<Rightarrow> string list \<Rightarrow> string list \<Rightarrow> nat \<Rightarrow> nat \<Rightarrow> string \<Rightarrow> unit io" where
  "main_run ops doVerbose argv_arg kernels frames_to_convert fks stop_ets output_ck =
     bnd (if ''--create'' \<in> set argv_arg
          then bnd (copy_strs fks) (\<lambda>fks'.
               bnd (copy_reals stop_ets) (\<lambda>stop_ets'.
               create_ck ops doVerbose kernels frames_to_convert fks' stop_ets' output_ck))
          else return ()) (\<lambda>_.
     if ''--test'' \<in> set argv_arg
     then bnd (copy_strs fks) (\<lambda>fks'.
          bnd (copy_reals stop_ets) (\<lambda>stop_ets'.
          test_ck ops kernels frames_to_convert fks' stop_ets' output_ck))
     else return ())"

definition main_end ::
  "spice \<Rightarrow> bool \<Rightarrow> string list \<Rightarrow> string list \<Rightarrow> string list \<Rightarrow> nat \<Rightarrow> unit io" where
  "main_end ops doVerbose argv_arg kernels frames_to_convert fks =
     bnd (main_lists ops fks) (\<lambda>(stop_ets, output_ck).
     main_run ops doVerbose argv_arg kernels frames_to_convert fks stop_ets output_ck)"

definition main :: "spice \<Rightarrow> bool \<Rightarrow> string \<Rightarrow> string list \<Rightarrow> state \<Rightarrow> ((error + unit) \<times> state) option" where
  "main ops doVerbose file argv_arg s =
     (let kernels = main_kernels file argv_arg
      in case main_begin ops kernels s of
           (Inl e, s1) \<Rightarrow> Some (Inl e, s1)
         | (Inr (frames_to_convert, fks), s1) \<Rightarrow>
             (case read_fks ops fks 0 s1 of
                None \<Rightarrow> None
              | Some s2 \<Rightarrow> Some (main_end ops doVerbose argv_arg kernels frames_to_convert fks s2)))"

section \<open>Reading traces\<close>

text \<open>What a computation appends to the trace, and what it returns.\<close>

definition events_of :: "'a io \<Rightarrow> state \<Rightarrow> event list" where
  "events_of m s = drop (length (trace s)) (trace (snd (m s)))"

definition result_of :: "'a io \<Rightarrow> state \<Rightarrow> error + 'a" where
  "result_of m s = fst (m s)"

text \<open>The segments written (\<^verbatim>\<open>sp.ckw02\<close> calls that returned) and the handles opened
  (\<^verbatim>\<open>sp.ckopn\<close> calls that returned), in order.\<close>

definition written :: "event list \<Rightarrow> segment list" where
  "written evs = concat (map (\<lambda>ev. case ev of Ckw02 h sg (Inr u) \<Rightarrow> [sg] | _ \<Rightarrow> []) evs)"

definition opened :: "event list \<Rightarrow> int list" where
  "opened evs = concat (map (\<lambda>ev. case ev of Ckopn p l n (Inr h) \<Rightarrow> [h] | _ \<Rightarrow> []) evs)"

text \<open>
  The calls around an old FK. After \<^verbatim>\<open>sp.furnsh(fk)\<close> has returned, the next calls must
  be \<^verbatim>\<open>sp.gcpool\<close>, \<^verbatim>\<open>sp.pxform\<close> and \<^verbatim>\<open>sp.unload(fk)\<close>, in this order; no other call is
  made while the old FK is loaded, and \<^verbatim>\<open>sp.gcpool\<close>, \<^verbatim>\<open>sp.pxform\<close> and \<^verbatim>\<open>sp.unload\<close> are made
  at no other time. \<open>None\<close> is a trace that breaks this.
\<close>

datatype fk_phase = Idle | Loaded string | Named string | Rotated string

definition fk_step :: "fk_phase \<Rightarrow> event \<Rightarrow> fk_phase option" where
  "fk_step ph ev =
     (case ph of
        Idle \<Rightarrow>
          (case ev of
             Furnsh k r \<Rightarrow> Some (case r of Inl e \<Rightarrow> Idle | Inr u \<Rightarrow> Loaded k)
           | Gcpool n a b c r \<Rightarrow> None
           | Pxform x y t r \<Rightarrow> None
           | Unload k r \<Rightarrow> None
           | _ \<Rightarrow> Some Idle)
      | Loaded k \<Rightarrow> (case ev of Gcpool n a b c r \<Rightarrow> Some (Named k) | _ \<Rightarrow> None)
      | Named k \<Rightarrow> (case ev of Pxform x y t r \<Rightarrow> Some (Rotated k) | _ \<Rightarrow> None)
      | Rotated k \<Rightarrow>
          (case ev of
             Unload k' r \<Rightarrow>
               (if k' = k then Some (case r of Inl e \<Rightarrow> Rotated k | Inr u \<Rightarrow> Idle) else None)
           | _ \<Rightarrow> None))"

fun fk_scan :: "fk_phase \<Rightarrow> event list \<Rightarrow> fk_phase option" where
  "fk_scan ph [] = Some ph"
| "fk_scan ph (ev # evs) = (case fk_step ph ev of None \<Rightarrow> None | Some ph' \<Rightarrow> fk_scan ph' evs)"

text \<open>The calls of one pass through the body of the inner loop of \<^verbatim>\<open>create_ck\<close> that
  reaches its end, with the handle \<open>hdl\<close> and the segment \<open>sg\<close> given to \<^verbatim>\<open>sp.ckw02\<close>.\<close>

definition iteration ::
  "string \<Rightarrow> string \<Rightarrow> real \<Rightarrow> real option \<Rightarrow> int option \<Rightarrow> string \<Rightarrow> int \<Rightarrow> segment \<Rightarrow> event list \<Rightarrow> bool" where
  "iteration output_ck fk stop_et last_et ck_handle reffrm hdl sg evs =
     (\<exists>reffrm_id ids sclk_id sclks rel rels mtx quat t1 t0 vals.
        evs = [Gipool (''FRAME_'' @ upper reffrm) 0 1 (Inr (reffrm_id # ids)),
               Gipool (''CK_'' @ int_str reffrm_id @ ''_SCLK'') 0 1 (Inr (sclk_id # sclks))]
            @ (case last_et of None \<Rightarrow> [] | Some t \<Rightarrow> [Sce2t sclk_id t (Inr (begtim sg))])
            @ [Furnsh fk (Inr ()),
               Gcpool (''TKFRAME_'' @ int_str reffrm_id @ ''_RELATIVE'') 0 1 99 (Inr (rel # rels)),
               Pxform rel reffrm 0 (Inr mtx),
               Unload fk (Inr ()),
               M2q mtx (Inr quat),
               Sct2e sclk_id 1000 (Inr t1),
               Sct2e sclk_id 0 (Inr t0)]
            @ (if stop_et < - py_1e30
               then [Gdpool (''SCLK_PARTITION_END_'' @ int_str (- sclk_id)) 0 999 (Inr vals)]
               else [Sce2t sclk_id stop_et (Inr (endtim sg))])
            @ (case ck_handle of None \<Rightarrow> [Ckopn output_ck ''ORX FK REPLACEMENT'' 0 (Inr hdl)]
                                | Some h \<Rightarrow> [])
            @ [Ckw02 hdl sg (Inr ())]
      \<and> (last_et = None \<longrightarrow> begtim sg = 0)
      \<and> (stop_et < - py_1e30 \<longrightarrow> vals \<noteq> [] \<and> endtim sg = last vals)
      \<and> (\<forall>h. ck_handle = Some h \<longrightarrow> hdl = h)
      \<and> inst sg = reffrm_id \<and> ref sg = rel
      \<and> segid sg = take 40 (basename fk @ ''['' @ reffrm @ '']'')
      \<and> nrec sg = 1 \<and> start sg = [begtim sg] \<and> stop sg = [endtim sg] \<and> quats sg = [quat]
      \<and> avvs sg = [[0, 0, 0]] \<and> rates sg = [(t1 - t0) / 1000])"

lemma frame_body_iteration:
  "grows (frame_body ops doVerbose output_ck fk stop_et last_et ck_handle reffrm)
     (\<lambda>r evs. \<forall>h'. r = Inr h' \<longrightarrow>
        (\<exists>hdl sg. h' = Some hdl \<and> iteration output_ck fk stop_et last_et ck_handle reffrm hdl sg evs))"
  unfolding frame_body_def
  apply (rule grows_weaken)
   apply (rule gi)+
  apply (cases last_et; cases ck_handle; cases "stop_et < - py_1e30")
  apply (auto simp: iteration_def)
  done


lemma frames_loop_rule:
  assumes body: "\<And>h reffrm. grows (frame_body ops doVerbose output_ck fk stop_et last_et h reffrm) (Qb h reffrm)"
    and base: "\<And>h. P h [] (Inr h) []"
    and fail: "\<And>h f fs e evs. Qb h f (Inl e) evs \<Longrightarrow> P h (f # fs) (Inl e) evs"
    and step: "\<And>h f fs h' e1 r e2. Qb h f (Inr h') e1 \<Longrightarrow> P h' fs r e2 \<Longrightarrow> P h (f # fs) r (e1 @ e2)"
  shows "grows (frames_loop ops doVerbose output_ck fk stop_et last_et h frames) (P h frames)"
proof (induction frames arbitrary: h)
  case Nil
  show ?case by (simp, rule grows_weaken, rule grows_return) (simp add: base)
next
  case (Cons f fs)
  show ?case
    apply simp
    apply (rule grows_weaken)
     apply (rule grows_bnd)
      apply (rule body)
     apply (rule Cons.IH)
    apply (auto intro: fail step)
    done
qed

lemma windows_loop_rule:
  assumes loop: "\<And>fk stop_et last_et h.
      grows (frames_loop ops doVerbose output_ck fk stop_et last_et h frames) (Qf fk stop_et last_et h)"
    and base: "\<And>last_et h sts. P last_et h [] sts (Inr h) []"
    and short: "\<And>last_et h fk ws. P last_et h (fk # ws) [] (Inl IndexError) []"
    and fail: "\<And>last_et h fk ws st sts e evs.
      Qf fk st last_et h (Inl e) evs \<Longrightarrow> P last_et h (fk # ws) (st # sts) (Inl e) evs"
    and step: "\<And>last_et h fk ws st sts h' e1 r e2.
      Qf fk st last_et h (Inr h') e1 \<Longrightarrow> P (Some st) h' ws sts r e2 \<Longrightarrow>
      P last_et h (fk # ws) (st # sts) r (e1 @ e2)"
    and run: "windows_loop ops doVerbose output_ck frames fks stop_ets last_et h s = (r, s')"
  shows "\<exists>evs. trace s' = trace s @ evs \<and>
           P last_et h (rev (strs s fks)) (rev (reals s stop_ets)) r evs"
  using run
proof (induction "length (strs s fks)" arbitrary: s last_et h)
  case 0
  then have "strs s fks = []" by simp
  with "0.prems" have "r = Inr h" "s' = s" by simp_all
  with \<open>strs s fks = []\<close> base show ?case by simp
next
  case (Suc n)
  note run = Suc.prems
  show ?case
  proof -
    from Suc.hyps(2) have False: "strs s fks \<noteq> []" by auto
    then obtain fk ws where ws: "rev (strs s fks) = fk # ws"
      by (cases "rev (strs s fks)") auto
    then have fk: "last (strs s fks) = fk" and bl: "rev (butlast (strs s fks)) = ws"
      using False by (auto simp: last_rev butlast_rev rev_swap)
    define s1 where "s1 = s\<lparr>strs := (strs s)(fks := butlast (strs s fks))\<rparr>"
    have pop1: "pop_str fks s = (Inr fk, s1)"
      using False fk by (simp add: pop_str_def s1_def)
    show ?thesis
    proof (cases "reals s stop_ets = []")
      case True
      then have "pop_real stop_ets s1 = (Inl IndexError, s1)"
        by (simp add: pop_real_def s1_def)
      with run False pop1 have "r = Inl IndexError" "s' = s1" by simp_all
      with True ws short show ?thesis by (simp add: s1_def)
    next
      case nonempty: False
      then obtain st sts where sts: "rev (reals s stop_ets) = st # sts"
        by (cases "rev (reals s stop_ets)") auto
      then have st: "last (reals s stop_ets) = st" and bl2: "rev (butlast (reals s stop_ets)) = sts"
        using nonempty by (auto simp: last_rev butlast_rev rev_swap)
      define s2 where "s2 = s1\<lparr>reals := (reals s1)(stop_ets := butlast (reals s1 stop_ets))\<rparr>"
      have pop2: "pop_real stop_ets s1 = (Inr st, s2)"
        using nonempty st by (simp add: pop_real_def s2_def s1_def)
      obtain r3 s3 where fl: "frames_loop ops doVerbose output_ck fk st last_et h frames s2 = (r3, s3)"
        by (cases "frames_loop ops doVerbose output_ck fk st last_et h frames s2")
      from growsD [OF loop fl] obtain e1 where s3: "s3 = s2\<lparr>trace := trace s2 @ e1\<rparr>"
        and q: "Qf fk st last_et h r3 e1" by blast
      show ?thesis
      proof (cases r3)
        case (Inl e)
        with run False pop1 pop2 fl have "r = Inl e" "s' = s3" by simp_all
        with q Inl s3 ws sts fail show ?thesis by (simp add: s2_def s1_def)
      next
        case (Inr h')
        with run False pop1 pop2 fl
        have rec: "windows_loop ops doVerbose output_ck frames fks stop_ets (Some st) h' s3 = (r, s')"
          by simp
        have len: "n = length (strs s3 fks)"
          using Suc.hyps(2) False by (simp add: s3 s2_def s1_def)
        from Suc.hyps(1) [OF len rec]
        obtain e2 where t: "trace s' = trace s3 @ e2"
          and p: "P (Some st) h' (rev (strs s3 fks)) (rev (reals s3 stop_ets)) r e2"
          by blast
        have "strs s3 fks = butlast (strs s fks)" "reals s3 stop_ets = butlast (reals s stop_ets)"
          by (simp_all add: s3 s2_def s1_def)
        with p bl bl2 have "P (Some st) h' ws sts r e2" by simp
        moreover from q Inr have "Qf fk st last_et h (Inr h') e1" by simp
        ultimately have "P last_et h (fk # ws) (st # sts) r (e1 @ e2)" by (rule step [rotated])
        moreover have "trace s' = trace s @ (e1 @ e2)" using t by (simp add: s3 s2_def s1_def)
        ultimately show ?thesis using ws sts by auto
      qed
    qed
  qed
qed


lemma written_append [simp]: "written (a @ b) = written a @ written b"
  by (simp add: written_def)

lemma opened_append [simp]: "opened (a @ b) = opened a @ opened b"
  by (simp add: opened_def)

lemma written_Nil [simp]: "written [] = []"
  by (simp add: written_def)

lemma opened_Nil [simp]: "opened [] = []"
  by (simp add: opened_def)

lemma fk_scan_append:
  "fk_scan ph (a @ b) = (case fk_scan ph a of None \<Rightarrow> None | Some ph' \<Rightarrow> fk_scan ph' b)"
  by (induction a arbitrary: ph) (auto split: option.splits)

text \<open>
  What the trace says about the begin and the end tick of a written segment \<open>sg\<close>:
  with no previous stop time the begin tick is zero, otherwise it is the answer of
  \<^verbatim>\<open>sp.sce2t\<close> for that time on the clock that \<^verbatim>\<open>CK_<id>_SCLK\<close> names for the frame of the
  segment; the end tick is the last value of \<^verbatim>\<open>SCLK_PARTITION_END_<-clock>\<close> when the stop
  time is below \<^verbatim>\<open>-1e30\<close>, and the answer of \<^verbatim>\<open>sp.sce2t\<close> for the stop time otherwise.
\<close>

definition begin_ok :: "real option \<Rightarrow> segment \<Rightarrow> event list \<Rightarrow> bool" where
  "begin_ok last_et sg evs =
     (case last_et of
        None \<Rightarrow> begtim sg = 0
      | Some t \<Rightarrow>
          (\<exists>sclk_id sclks. Gipool (''CK_'' @ int_str (inst sg) @ ''_SCLK'') 0 1 (Inr (sclk_id # sclks)) \<in> set evs
             \<and> Sce2t sclk_id t (Inr (begtim sg)) \<in> set evs))"

definition end_ok :: "real \<Rightarrow> segment \<Rightarrow> event list \<Rightarrow> bool" where
  "end_ok stop_et sg evs =
     (\<exists>sclk_id sclks. Gipool (''CK_'' @ int_str (inst sg) @ ''_SCLK'') 0 1 (Inr (sclk_id # sclks)) \<in> set evs
        \<and> (if stop_et < - py_1e30
           then (\<exists>vals. vals \<noteq> [] \<and> endtim sg = last vals \<and>
                   Gdpool (''SCLK_PARTITION_END_'' @ int_str (- sclk_id)) 0 999 (Inr vals) \<in> set evs)
           else Sce2t sclk_id stop_et (Inr (endtim sg)) \<in> set evs))"


lemma fk_step_simps [simp]:
  "fk_step Idle (Furnsh k (Inr u)) = Some (Loaded k)"
  "fk_step Idle (Furnsh k (Inl e)) = Some Idle"
  "fk_step (Loaded k) (Gcpool n a b c rs) = Some (Named k)"
  "fk_step (Named k) (Pxform x y t rm) = Some (Rotated k)"
  "fk_step (Rotated k) (Unload k (Inr u)) = Some Idle"
  "fk_step (Rotated k) (Unload k (Inl e)) = Some (Rotated k)"
  "fk_step Idle (Gipool n a b ri) = Some Idle"
  "fk_step Idle (Gdpool n a b rd) = Some Idle"
  "fk_step Idle (Sce2t c t rr) = Some Idle"
  "fk_step Idle (Sct2e c t rr) = Some Idle"
  "fk_step Idle (M2q m rq) = Some Idle"
  "fk_step Idle (Ckopn p l i rh) = Some Idle"
  "fk_step Idle (Ckw02 h sg ru) = Some Idle"
  "fk_step Idle (Ckcls h ru) = Some Idle"
  by (simp_all add: fk_step_def)

lemma written_simps [simp]:
  "written (Ckw02 h sg (Inr u) # evs) = sg # written evs"
  "written (Ckw02 h sg (Inl e) # evs) = written evs"
  "\<not> is_Ckw02 ev \<Longrightarrow> written (ev # evs) = written evs"
  by (cases ev; simp add: written_def)+

lemma opened_simps [simp]:
  "opened (Ckopn p l n (Inr h) # evs) = h # opened evs"
  "opened (Ckopn p l n (Inl e) # evs) = opened evs"
  "\<not> is_Ckopn ev \<Longrightarrow> opened (ev # evs) = opened evs"
  by (cases ev; simp add: opened_def)+

lemma iteration_facts:
  assumes "iteration output_ck fk stop_et last_et ck_handle reffrm hdl sg evs"
  shows "written evs = [sg]"
    and "opened evs = (case ck_handle of None \<Rightarrow> [hdl] | Some h \<Rightarrow> [])"
    and "ck_handle = Some h \<Longrightarrow> hdl = h"
    and "fk_scan Idle evs = Some Idle"
    and "begin_ok last_et sg evs"
    and "end_ok stop_et sg evs"
    and "\<not> list_ex is_Ckcls evs" and "\<not> list_ex is_Exists evs"
proof -
  from assms obtain reffrm_id ids sclk_id sclks rel rels mtx quat t1 t0 vals where
    evs: "evs = [Gipool (''FRAME_'' @ upper reffrm) 0 1 (Inr (reffrm_id # ids)),
               Gipool (''CK_'' @ int_str reffrm_id @ ''_SCLK'') 0 1 (Inr (sclk_id # sclks))]
            @ (case last_et of None \<Rightarrow> [] | Some t \<Rightarrow> [Sce2t sclk_id t (Inr (begtim sg))])
            @ [Furnsh fk (Inr ()),
               Gcpool (''TKFRAME_'' @ int_str reffrm_id @ ''_RELATIVE'') 0 1 99 (Inr (rel # rels)),
               Pxform rel reffrm 0 (Inr mtx),
               Unload fk (Inr ()),
               M2q mtx (Inr quat),
               Sct2e sclk_id 1000 (Inr t1),
               Sct2e sclk_id 0 (Inr t0)]
            @ (if stop_et < - py_1e30
               then [Gdpool (''SCLK_PARTITION_END_'' @ int_str (- sclk_id)) 0 999 (Inr vals)]
               else [Sce2t sclk_id stop_et (Inr (endtim sg))])
            @ (case ck_handle of None \<Rightarrow> [Ckopn output_ck ''ORX FK REPLACEMENT'' 0 (Inr hdl)]
                                | Some h \<Rightarrow> [])
            @ [Ckw02 hdl sg (Inr ())]"
    and b0: "last_et = None \<longrightarrow> begtim sg = 0"
    and e0: "stop_et < - py_1e30 \<longrightarrow> vals \<noteq> [] \<and> endtim sg = last vals"
    and h0: "\<forall>h. ck_handle = Some h \<longrightarrow> hdl = h"
    and i0: "inst sg = reffrm_id"
    unfolding iteration_def by blast
  show "written evs = [sg]"
    by (simp add: evs split: option.splits)
  show "opened evs = (case ck_handle of None \<Rightarrow> [hdl] | Some h \<Rightarrow> [])"
    by (simp add: evs split: option.splits)
  show "ck_handle = Some h \<Longrightarrow> hdl = h" using h0 by simp
  show "fk_scan Idle evs = Some Idle"
    by (simp add: evs fk_scan_append split: option.splits)
  show "begin_ok last_et sg evs"
    using b0 i0 by (cases last_et) (auto simp: begin_ok_def evs)
  show "end_ok stop_et sg evs"
    unfolding end_ok_def
    apply (rule exI [of _ sclk_id], rule exI [of _ sclks])
    using e0 i0 by (simp add: evs)
  show "\<not> list_ex is_Ckcls evs" by (simp add: evs split: option.splits)
  show "\<not> list_ex is_Exists evs" by (simp add: evs split: option.splits)
qed


lemma frame_body_fail:
  "grows (frame_body ops doVerbose output_ck fk stop_et last_et ck_handle reffrm)
     (\<lambda>r evs. \<forall>e. r = Inl e \<longrightarrow>
        written evs = [] \<and> fk_scan Idle evs \<noteq> None \<and> \<not> list_ex is_Ckcls evs \<and>
        \<not> list_ex is_Exists evs \<and> length (opened evs) \<le> 1 \<and>
        (ck_handle \<noteq> None \<longrightarrow> opened evs = []) \<and> evs \<noteq> [])"
  unfolding frame_body_def
  apply (rule grows_weaken)
   apply (rule gi)+
  apply (auto simp: fk_scan_append)
  done


lemma grows_conj: "grows m Q1 \<Longrightarrow> grows m Q2 \<Longrightarrow> grows m (\<lambda>r evs. Q1 r evs \<and> Q2 r evs)"
  unfolding grows_def
proof (intro allI impI)
  fix s r s'
  assume a: "\<forall>s r s'. m s = (r, s') \<longrightarrow> (\<exists>evs. s' = s\<lparr>trace := trace s @ evs\<rparr> \<and> Q1 r evs)"
    and b: "\<forall>s r s'. m s = (r, s') \<longrightarrow> (\<exists>evs. s' = s\<lparr>trace := trace s @ evs\<rparr> \<and> Q2 r evs)"
    and run: "m s = (r, s')"
  from a run obtain e1 where e1: "s' = s\<lparr>trace := trace s @ e1\<rparr>" "Q1 r e1" by blast
  from b run obtain e2 where e2: "s' = s\<lparr>trace := trace s @ e2\<rparr>" "Q2 r e2" by blast
  from e1(1) e2(1) have "trace s @ e1 = trace s @ e2"
    by (metis state.select_convs(4) state.surjective state.update_convs(4))
  then have "e1 = e2" by simp
  with e1 e2 show "\<exists>evs. s' = s\<lparr>trace := trace s @ evs\<rparr> \<and> Q1 r evs \<and> Q2 r evs" by blast
qed

definition body_post ::
  "string \<Rightarrow> string \<Rightarrow> real \<Rightarrow> real option \<Rightarrow> int option \<Rightarrow> string \<Rightarrow> error + int option \<Rightarrow> event list \<Rightarrow> bool" where
  "body_post output_ck fk stop_et last_et ck_handle reffrm r evs =
     ((\<forall>h'. r = Inr h' \<longrightarrow>
         (\<exists>hdl sg. h' = Some hdl \<and> iteration output_ck fk stop_et last_et ck_handle reffrm hdl sg evs)) \<and>
      (\<forall>e. r = Inl e \<longrightarrow>
         written evs = [] \<and> fk_scan Idle evs \<noteq> None \<and> \<not> list_ex is_Ckcls evs \<and>
         \<not> list_ex is_Exists evs \<and> length (opened evs) \<le> 1 \<and>
         (ck_handle \<noteq> None \<longrightarrow> opened evs = []) \<and> evs \<noteq> []))"

lemma frame_body_post:
  "grows (frame_body ops doVerbose output_ck fk stop_et last_et ck_handle reffrm)
     (body_post output_ck fk stop_et last_et ck_handle reffrm)"
  unfolding body_post_def by (rule grows_conj [OF frame_body_iteration frame_body_fail])

lemma begin_ok_mono: "begin_ok l sg evs \<Longrightarrow> set evs \<subseteq> set evs' \<Longrightarrow> begin_ok l sg evs'"
  unfolding begin_ok_def by (cases l) auto

lemma end_ok_mono: "end_ok st sg evs \<Longrightarrow> set evs \<subseteq> set evs' \<Longrightarrow> end_ok st sg evs'"
  unfolding end_ok_def by (cases "st < - py_1e30") (simp_all, blast+)

definition frames_segs :: "real \<Rightarrow> real option \<Rightarrow> string list \<Rightarrow> error + int option \<Rightarrow> event list \<Rightarrow> bool" where
  "frames_segs stop_et last_et fs r evs =
     ((\<forall>sg \<in> set (written evs). begin_ok last_et sg evs \<and> end_ok stop_et sg evs) \<and>
      (case r of Inr h \<Rightarrow> length (written evs) = length fs | Inl e \<Rightarrow> length (written evs) < length fs))"

lemma frames_loop_segs:
  "grows (frames_loop ops doVerbose output_ck fk stop_et last_et h frames)
     (frames_segs stop_et last_et frames)"
proof (rule frames_loop_rule [where P = "\<lambda>h. frames_segs stop_et last_et"
        and Qb = "body_post output_ck fk stop_et last_et"])
  show "\<And>h reffrm. grows (frame_body ops doVerbose output_ck fk stop_et last_et h reffrm)
          (body_post output_ck fk stop_et last_et h reffrm)"
    by (rule frame_body_post)
  show "\<And>h. frames_segs stop_et last_et [] (Inr h) []"
    by (simp add: frames_segs_def)
  show "\<And>h f fs e evs. body_post output_ck fk stop_et last_et h f (Inl e) evs \<Longrightarrow>
          frames_segs stop_et last_et (f # fs) (Inl e) evs"
    by (simp add: frames_segs_def body_post_def)
next
  fix h f fs h' e1 r e2
  assume b: "body_post output_ck fk stop_et last_et h f (Inr h') e1"
    and p: "frames_segs stop_et last_et fs r e2"
  from b obtain hdl sg where it: "iteration output_ck fk stop_et last_et h f hdl sg e1"
    by (auto simp: body_post_def)
  note f = iteration_facts [OF it]
  have "begin_ok last_et sg (e1 @ e2)" "end_ok stop_et sg (e1 @ e2)"
    using f(5,6) by (auto intro: begin_ok_mono end_ok_mono)
  moreover have "\<forall>sg' \<in> set (written e2). begin_ok last_et sg' (e1 @ e2) \<and> end_ok stop_et sg' (e1 @ e2)"
    using p by (auto simp: frames_segs_def intro: begin_ok_mono end_ok_mono)
  ultimately show "frames_segs stop_et last_et (f # fs) r (e1 @ e2)"
    using p f(1) by (auto simp: frames_segs_def split: sum.splits)
qed


definition windows_segs ::
  "nat \<Rightarrow> real option \<Rightarrow> real list \<Rightarrow> event list \<Rightarrow> bool" where
  "windows_segs m last_et sts evs =
     ((m = 0 \<longrightarrow> written evs = []) \<and>
      (\<forall>n < length (written evs).
         n div m < length sts \<and>
         begin_ok (if n div m = 0 then last_et else Some (sts ! (n div m - 1))) (written evs ! n) evs \<and>
         end_ok (sts ! (n div m)) (written evs ! n) evs))"

lemma windows_segs_step:
  assumes q: "frames_segs st last_et frames (Inr h') e1"
    and p: "windows_segs (length frames) (Some st) sts e2"
  shows "windows_segs (length frames) last_et (st # sts) (e1 @ e2)"
proof -
  let ?m = "length frames"
  from q have len: "length (written e1) = ?m"
    and ok1: "\<forall>sg \<in> set (written e1). begin_ok last_et sg e1 \<and> end_ok st sg e1"
    by (simp_all add: frames_segs_def)
  from p have z: "?m = 0 \<longrightarrow> written e2 = []"
    and ok2: "\<forall>n < length (written e2). n div ?m < length sts \<and>
         begin_ok (if n div ?m = 0 then Some st else Some (sts ! (n div ?m - 1))) (written e2 ! n) e2 \<and>
         end_ok (sts ! (n div ?m)) (written e2 ! n) e2"
    by (simp_all add: windows_segs_def)
  have "\<forall>n < length (written (e1 @ e2)).
         n div ?m < length (st # sts) \<and>
         begin_ok (if n div ?m = 0 then last_et else Some ((st # sts) ! (n div ?m - 1)))
           (written (e1 @ e2) ! n) (e1 @ e2) \<and>
         end_ok ((st # sts) ! (n div ?m)) (written (e1 @ e2) ! n) (e1 @ e2)"
  proof (intro allI impI)
    fix n assume n: "n < length (written (e1 @ e2))"
    show "n div ?m < length (st # sts) \<and>
         begin_ok (if n div ?m = 0 then last_et else Some ((st # sts) ! (n div ?m - 1)))
           (written (e1 @ e2) ! n) (e1 @ e2) \<and>
         end_ok ((st # sts) ! (n div ?m)) (written (e1 @ e2) ! n) (e1 @ e2)"
    proof (cases "n < ?m")
      case True
      then have d: "n div ?m = 0" by simp
      from True len have el: "written (e1 @ e2) ! n = written e1 ! n" "written e1 ! n \<in> set (written e1)"
        by (simp_all add: nth_append)
      with ok1 have "begin_ok last_et (written e1 ! n) e1" "end_ok st (written e1 ! n) e1" by auto
      then have "begin_ok last_et (written e1 ! n) (e1 @ e2)" "end_ok st (written e1 ! n) (e1 @ e2)"
        by (auto intro: begin_ok_mono end_ok_mono)
      with d el show ?thesis by simp
    next
      case False
      with n len z have m: "0 < ?m" by (cases "?m = 0") auto
      from False have ge: "?m \<le> n" by simp
      let ?k = "(n - ?m) div ?m"
      from m ge have d: "n div ?m = Suc ?k" by (simp add: le_div_geq)
      from n len ge have n2: "n - ?m < length (written e2)" by simp
      from len ge have el: "written (e1 @ e2) ! n = written e2 ! (n - ?m)"
        by (simp add: nth_append)
      from ok2 n2 have k: "?k < length sts"
        and b: "begin_ok (if ?k = 0 then Some st else Some (sts ! (?k - 1))) (written e2 ! (n - ?m)) e2"
        and e: "end_ok (sts ! ?k) (written e2 ! (n - ?m)) e2"
        by blast+
      have st: "(if ?k = 0 then Some st else Some (sts ! (?k - 1))) = Some ((st # sts) ! ?k)"
        by (cases ?k) simp_all
      from b e have "begin_ok (Some ((st # sts) ! ?k)) (written e2 ! (n - ?m)) (e1 @ e2)"
        "end_ok (sts ! ?k) (written e2 ! (n - ?m)) (e1 @ e2)"
        unfolding st by (auto intro: begin_ok_mono end_ok_mono)
      with d el k show ?thesis by simp
    qed
  qed
  moreover have "?m = 0 \<longrightarrow> written (e1 @ e2) = []" using z len by auto
  ultimately show ?thesis unfolding windows_segs_def by blast
qed

lemma windows_segs_fail:
  assumes q: "frames_segs st last_et frames (Inl e) evs"
  shows "windows_segs (length frames) last_et (st # sts) evs"
proof -
  from q have len: "length (written evs) < length frames"
    and ok: "\<forall>sg \<in> set (written evs). begin_ok last_et sg evs \<and> end_ok st sg evs"
    by (simp_all add: frames_segs_def)
  show ?thesis unfolding windows_segs_def
  proof (intro conjI allI impI)
    show "length frames = 0 \<Longrightarrow> written evs = []" using len by simp
  next
    fix n assume n: "n < length (written evs)"
    with len have d: "n div length frames = 0" by simp
    from n ok have "begin_ok last_et (written evs ! n) evs" "end_ok st (written evs ! n) evs" by auto
    with d show "n div length frames < length (st # sts)"
      "begin_ok (if n div length frames = 0 then last_et
                 else Some ((st # sts) ! (n div length frames - 1))) (written evs ! n) evs"
      "end_ok ((st # sts) ! (n div length frames)) (written evs ! n) evs"
      by simp_all
  qed
qed

lemma windows_loop_segs:
  assumes run: "windows_loop ops doVerbose output_ck frames fks stop_ets last_et h s = (r, s')"
  shows "\<exists>evs. trace s' = trace s @ evs \<and>
           windows_segs (length frames) last_et (rev (reals s stop_ets)) evs"
proof -
  have "\<exists>evs. trace s' = trace s @ evs \<and>
         (\<lambda>last_et h ws sts r evs. windows_segs (length frames) last_et sts evs)
            last_et h (rev (strs s fks)) (rev (reals s stop_ets)) r evs"
  proof (rule windows_loop_rule [where Qf = "\<lambda>fk st last_et h. frames_segs st last_et frames", OF _ _ _ _ _ run])
    show "\<And>fk stop_et last_et h.
       grows (frames_loop ops doVerbose output_ck fk stop_et last_et h frames)
        (frames_segs stop_et last_et frames)"
      by (rule frames_loop_segs)
    show "\<And>last_et h sts. windows_segs (length frames) last_et sts []"
      by (simp add: windows_segs_def)
    show "\<And>last_et h fk ws. windows_segs (length frames) last_et [] []"
      by (simp add: windows_segs_def)
    show "\<And>last_et h fk ws st sts e evs.
       frames_segs st last_et frames (Inl e) evs \<Longrightarrow> windows_segs (length frames) last_et (st # sts) evs"
      by (rule windows_segs_fail)
    show "\<And>last_et h fk ws st sts h' e1 r e2.
       frames_segs st last_et frames (Inr h') e1 \<Longrightarrow>
       windows_segs (length frames) (Some st) sts e2 \<Longrightarrow>
       windows_segs (length frames) last_et (st # sts) (e1 @ e2)"
      by (rule windows_segs_step)
  qed
  then show ?thesis by simp
qed


lemma grows_furnsh_all: "grows (furnsh_all ops ks) (\<lambda>r evs. list_all is_Furnsh evs)"
proof (induction ks)
  case Nil
  show ?case by (simp, rule grows_weaken, rule grows_return) simp
next
  case (Cons k ks)
  show ?case
    by (simp, rule grows_weaken, rule grows_bnd, rule grows_furnsh, rule Cons.IH) auto
qed

lemma create_ck_run:
  assumes run: "create_ck ops doVerbose kernels frames fks stop_ets output_ck s = (r, s')"
  obtains
    (furnsh_failed) pre e where "list_all is_Furnsh pre" "r = Inl e" "s' = s\<lparr>trace := trace s @ pre\<rparr>"
      "furnsh_all ops kernels s = (Inl e, s')"
  | (exists_failed) pre e where "list_all is_Furnsh pre" "r = Inl e"
      "s' = s\<lparr>trace := trace s @ pre @ [Exists output_ck (Inl e)]\<rparr>"
      "furnsh_all ops kernels s = (Inr (), s\<lparr>trace := trace s @ pre\<rparr>)"
      "sp_exists ops (trace s @ pre) output_ck = Inl e"
  | (refused) pre where "list_all is_Furnsh pre"
      "r = Inl (KeyError (''Cannot overwrite existing CK['' @ output_ck @ '']''))"
      "s' = s\<lparr>trace := trace s @ pre @ [Exists output_ck (Inr True)]\<rparr>"
      "furnsh_all ops kernels s = (Inr (), s\<lparr>trace := trace s @ pre\<rparr>)"
      "sp_exists ops (trace s @ pre) output_ck = Inr True"
  | (looped) pre s1 rl s2 where "list_all is_Furnsh pre"
      "furnsh_all ops kernels s = (Inr (), s\<lparr>trace := trace s @ pre\<rparr>)"
      "sp_exists ops (trace s @ pre) output_ck = Inr False"
      "s1 = s\<lparr>trace := trace s @ pre @ [Exists output_ck (Inr False)]\<rparr>"
      "windows_loop ops doVerbose output_ck frames fks stop_ets None None s1 = (rl, s2)"
      "(\<exists>e. rl = Inl e \<and> r = Inl e \<and> s' = s2) \<or>
       (rl = Inr None \<and> r = Inr () \<and> s' = s2) \<or>
       (\<exists>hdl. rl = Inr (Some hdl) \<and> r = sp_ckcls ops (trace s2) hdl \<and>
          s' = s2\<lparr>trace := trace s2 @ [Ckcls hdl r]\<rparr>)"
proof -
  obtain r0 s0 where f: "furnsh_all ops kernels s = (r0, s0)" by (cases "furnsh_all ops kernels s")
  from growsD [OF grows_furnsh_all f] obtain pre where
    s0: "s0 = s\<lparr>trace := trace s @ pre\<rparr>" and pre: "list_all is_Furnsh pre" by blast
  show thesis
  proof (cases r0)
    case (Inl e)
    with run f have "r = Inl e" "s' = s0" by (simp_all add: create_ck_def bnd_def)
    with s0 pre f Inl show thesis by (intro furnsh_failed [of pre e]) simp_all
  next
    case (Inr u)
    define rx where "rx = sp_exists ops (trace s0) output_ck"
    define s1 where "s1 = s0\<lparr>trace := trace s0 @ [Exists output_ck rx]\<rparr>"
    have ex: "exists ops output_ck s0 = (rx, s1)"
      by (simp add: exists_def call_def Let_def rx_def s1_def)
    show thesis
    proof (cases rx)
      case (Inl e)
      with run f Inr ex have "r = Inl e" "s' = s1" by (simp_all add: create_ck_def bnd_def)
      moreover have "furnsh_all ops kernels s = (Inr (), s\<lparr>trace := trace s @ pre\<rparr>)"
        using f Inr s0 by simp
      moreover have "sp_exists ops (trace s @ pre) output_ck = Inl e"
        using rx_def Inl s0 by simp
      ultimately show thesis using s0 s1_def Inl pre by (intro exists_failed [of pre e]) simp_all
    next
      case b: (Inr b)
      show thesis
      proof (cases b)
        case True
        with run f Inr ex b
        have "r = Inl (KeyError (''Cannot overwrite existing CK['' @ output_ck @ '']''))" "s' = s1"
          by (simp_all add: create_ck_def bnd_def raise_def)
        moreover have "furnsh_all ops kernels s = (Inr (), s\<lparr>trace := trace s @ pre\<rparr>)"
          using f Inr s0 by simp
        moreover have "sp_exists ops (trace s @ pre) output_ck = Inr True"
          using rx_def b True s0 by simp
        ultimately show thesis using s0 s1_def b True pre by (intro refused [of pre]) simp_all
      next
        case False
        obtain rl s2 where w: "windows_loop ops doVerbose output_ck frames fks stop_ets None None s1 = (rl, s2)"
          by (cases "windows_loop ops doVerbose output_ck frames fks stop_ets None None s1")
        from run f Inr ex b False w
        have fin: "(case rl of Inl e \<Rightarrow> (Inl e, s2)
                    | Inr h \<Rightarrow> (case h of None \<Rightarrow> return () | Some hdl \<Rightarrow> ckcls ops hdl) s2) = (r, s')"
          by (simp add: create_ck_def bnd_def return_def)
        have "(\<exists>e. rl = Inl e \<and> r = Inl e \<and> s' = s2) \<or>
              (rl = Inr None \<and> r = Inr () \<and> s' = s2) \<or>
              (\<exists>hdl. rl = Inr (Some hdl) \<and> r = sp_ckcls ops (trace s2) hdl \<and>
                s' = s2\<lparr>trace := trace s2 @ [Ckcls hdl r]\<rparr>)"
          using fin by (auto simp: return_def ckcls_def call_def Let_def split: sum.splits option.splits)
        moreover have "s1 = s\<lparr>trace := trace s @ pre @ [Exists output_ck (Inr False)]\<rparr>"
          using s0 b False by (simp add: s1_def)
        moreover have "sp_exists ops (trace s @ pre) output_ck = Inr False"
          using rx_def b False s0 by simp
        moreover have "furnsh_all ops kernels s = (Inr (), s\<lparr>trace := trace s @ pre\<rparr>)"
          using f Inr s0 by simp
        ultimately show thesis using pre w by (intro looped [of pre s1 rl s2]) simp_all
      qed
    qed
  qed
qed


lemma furnsh_quiet: "list_all is_Furnsh pre \<Longrightarrow> written pre = [] \<and> opened pre = []"
  by (induction pre) (auto simp: is_Furnsh_def)

lemma windows_segs_embed:
  assumes w: "windows_segs m l sts lp" and a: "written a = []" and b: "written b = []"
  shows "windows_segs m l sts (a @ lp @ b)"
proof -
  have wr: "written (a @ lp @ b) = written lp" using a b by simp
  have sub: "set lp \<subseteq> set (a @ lp @ b)" by auto
  show ?thesis
    unfolding windows_segs_def wr
  proof (intro conjI allI impI)
    show "m = 0 \<Longrightarrow> written lp = []" using w by (simp add: windows_segs_def)
  next
    fix n assume n: "n < length (written lp)"
    with w have 1: "n div m < length sts"
      and 2: "begin_ok (if n div m = 0 then l else Some (sts ! (n div m - 1))) (written lp ! n) lp"
      and 3: "end_ok (sts ! (n div m)) (written lp ! n) lp"
      by (simp_all add: windows_segs_def)
    show "n div m < length sts" by (rule 1)
    show "begin_ok (if n div m = 0 then l else Some (sts ! (n div m - 1))) (written lp ! n) (a @ lp @ b)"
      by (rule begin_ok_mono [OF 2 sub])
    show "end_ok (sts ! (n div m)) (written lp ! n) (a @ lp @ b)"
      by (rule end_ok_mono [OF 3 sub])
  qed
qed

lemma events_of_run:
  "m s = (r, s') \<Longrightarrow> trace s' = trace s @ evs \<Longrightarrow> events_of m s = evs"
  by (simp add: events_of_def)

lemma create_ck_segs:
  "windows_segs (length frames) None (rev (reals s stop_ets))
     (events_of (create_ck ops doVerbose kernels frames fks stop_ets output_ck) s)"
proof -
  obtain r s' where run: "create_ck ops doVerbose kernels frames fks stop_ets output_ck s = (r, s')"
    by (cases "create_ck ops doVerbose kernels frames fks stop_ets output_ck s")
  have ev: "\<And>evs. trace s' = trace s @ evs \<Longrightarrow>
      events_of (create_ck ops doVerbose kernels frames fks stop_ets output_ck) s = evs"
    using run by (simp add: events_of_def)
  from run show ?thesis
  proof (cases rule: create_ck_run)
    case (furnsh_failed pre e)
    then have "trace s' = trace s @ pre" by simp
    from ev [OF this]
    have "events_of (create_ck ops doVerbose kernels frames fks stop_ets output_ck) s = pre" .
    with furnsh_failed(1) show ?thesis by (simp add: windows_segs_def furnsh_quiet)
  next
    case (exists_failed pre e)
    then have "trace s' = trace s @ pre @ [Exists output_ck (Inl e)]" by simp
    from ev [OF this]
    have "events_of (create_ck ops doVerbose kernels frames fks stop_ets output_ck) s
        = pre @ [Exists output_ck (Inl e)]" .
    with exists_failed(1) show ?thesis by (simp add: windows_segs_def furnsh_quiet)
  next
    case (refused pre)
    then have "trace s' = trace s @ pre @ [Exists output_ck (Inr True)]" by simp
    from ev [OF this]
    have "events_of (create_ck ops doVerbose kernels frames fks stop_ets output_ck) s
        = pre @ [Exists output_ck (Inr True)]" .
    with refused(1) show ?thesis by (simp add: windows_segs_def furnsh_quiet)
  next
    case (looped pre s1 rl s2)
    from windows_loop_segs [OF looped(5)] obtain lp where
      lp: "trace s2 = trace s1 @ lp" and ws: "windows_segs (length frames) None (rev (reals s1 stop_ets)) lp"
      by blast
    from looped(4) have rs: "reals s1 = reals s" by simp
    from looped(6) obtain b where b: "trace s' = trace s2 @ b" "written b = []"
      by (elim disjE exE conjE) simp_all
    have "trace s' = trace s @ (pre @ [Exists output_ck (Inr False)]) @ lp @ b"
      using b lp looped(4) by simp
    from ev [OF this]
    have "events_of (create_ck ops doVerbose kernels frames fks stop_ets output_ck) s
        = (pre @ [Exists output_ck (Inr False)]) @ lp @ b" .
    moreover have "written (pre @ [Exists output_ck (Inr False)]) = []"
      using looped(1) by (simp add: furnsh_quiet)
    ultimately show ?thesis using ws rs b(2) by (simp only: windows_segs_embed)
  qed
qed

section \<open>Claims about \<^verbatim>\<open>create_ck\<close>\<close>

text \<open>
  Claim C1. In every run of \<^verbatim>\<open>create_ck\<close>, the segments are written window by window, one
  per frame, the windows in the order in which \<^verbatim>\<open>pop\<close> takes them from the end of the lists.
  The segment number \<open>n\<close> (from zero) belongs to window \<open>n div length frames\<close>. Every
  segment of the first window has the begin tick \<open>0\<close>; every segment of a later window has
  as begin tick the answer of \<^verbatim>\<open>sp.sce2t\<close>, on the clock that \<^verbatim>\<open>CK_<id>_SCLK\<close> names for the
  segment's frame, for the stop time of the window before it. The statement holds for the
  segments written before an error as well.
\<close>

theorem create_ck_begin_ticks:
  fixes ops doVerbose kernels frames fks stop_ets output_ck s
  defines "evs \<equiv> events_of (create_ck ops doVerbose kernels frames fks stop_ets output_ck) s"
  assumes n: "n < length (written evs)"
  shows "(n < length frames \<longrightarrow> begtim (written evs ! n) = 0) \<and>
         (length frames \<le> n \<longrightarrow>
            n div length frames - 1 < length (reals s stop_ets) \<and>
            (\<exists>sclk_id sclks.
               Gipool (''CK_'' @ int_str (inst (written evs ! n)) @ ''_SCLK'') 0 1 (Inr (sclk_id # sclks))
                 \<in> set evs \<and>
               Sce2t sclk_id (rev (reals s stop_ets) ! (n div length frames - 1))
                 (Inr (begtim (written evs ! n))) \<in> set evs))"
proof -
  have ws: "windows_segs (length frames) None (rev (reals s stop_ets)) evs"
    unfolding evs_def by (rule create_ck_segs)
  with n have m: "0 < length frames" by (cases "length frames = 0") (auto simp: windows_segs_def)
  from ws n have d: "n div length frames < length (reals s stop_ets)"
    and b: "begin_ok (if n div length frames = 0 then None
                     else Some (rev (reals s stop_ets) ! (n div length frames - 1))) (written evs ! n) evs"
    by (auto simp: windows_segs_def)
  show ?thesis
  proof (cases "n < length frames")
    case True
    with b show ?thesis by (simp add: begin_ok_def)
  next
    case False
    with m have "n div length frames \<noteq> 0" by (simp add: div_eq_0_iff)
    with b d False show ?thesis by (auto simp: begin_ok_def)
  qed
qed

section \<open>A sample environment\<close>

text \<open>
  A small environment in which every call returns, used to run the program on concrete
  inputs: one frame, two old FKs with the stop times \<open>100\<close> and \<open>-10\<^sup>3\<^sup>2\<close>. The file
  \<^verbatim>\<open>out.bc\<close> exists once \<^verbatim>\<open>sp.ckopn\<close> has returned for it.
\<close>

definition toy :: spice where
  "toy = \<lparr>
     sp_furnsh = (\<lambda>h k. Inr ()),
     sp_unload = (\<lambda>h k. Inr ()),
     sp_kclear = (\<lambda>h. Inr ()),
     sp_ktotal = (\<lambda>h k. Inr 0),
     sp_exists = (\<lambda>h p. Inr (list_ex (\<lambda>ev. case ev of Ckopn p' l n (Inr hdl) \<Rightarrow> p' = p | _ \<Rightarrow> False) h)),
     sp_gipool = (\<lambda>h n a b. Inr [- 64]),
     sp_gcpool = (\<lambda>h n a b c. Inr [''ORX_SPACECRAFT'']),
     sp_gdpool = (\<lambda>h n a b. Inr [1000, 2000]),
     sp_stpool = (\<lambda>h n i c l. Inr (''out.bc'', 6)),
     sp_sce2t = (\<lambda>h c et. Inr (2 * et)),
     sp_sct2e = (\<lambda>h c t. Inr (t / 2)),
     sp_pxform = (\<lambda>h x y et. Inr [[1, 0, 0], [0, 1, 0], [0, 0, 1]]),
     sp_m2q = (\<lambda>h m. Inr [1, 0, 0, of_nat (length (filter is_Kclear h))]),
     sp_vnorm = (\<lambda>h v. Inr (sum_list (map abs v))),
     sp_ckopn = (\<lambda>h p l n. Inr 1),
     sp_ckw02 = (\<lambda>h hdl sg. Inr ()),
     sp_ckcls = (\<lambda>h hdl. Inr ())\<rparr>"

definition s0 :: state where
  "s0 = \<lparr>strs = (\<lambda>_. [])(2 := [''v12.tf'', ''v11.tf'']),
         reals = (\<lambda>_. [])(3 := [- (10 ^ 32), 100]),
         next_ref = 4, trace = [], stdout = []\<rparr>"


lemmas run_defs =
  events_of_def result_of_def bnd_def return_def raise_def call_def Let_def
  furnsh_def unload_def kclear_def ktotal_def exists_def gipool_def gcpool_def gdpool_def
  stpool_def sce2t_def sct2e_def pxform_def m2q_def vnorm_def ckopn_def ckw02_def ckcls_def
  index0_def index_last_def pop_str_def pop_real_def int_str_def digit_char_def upper_def
  upper_char_def basename_def py_1e30_def frame_body_def create_ck_def

lemma toy_create_ck:
  "events_of (create_ck toy False [''naif0012.tls''] [''ORX_OLA_HIGH''] 2 3 ''out.bc'') s0 =
    [Furnsh ''naif0012.tls'' (Inr ()), Exists ''out.bc'' (Inr False),
     Gipool ''FRAME_ORX_OLA_HIGH'' 0 1 (Inr [- 64]),
     Gipool ''CK_-64_SCLK'' 0 1 (Inr [- 64]), Furnsh ''v11.tf'' (Inr ()),
     Gcpool ''TKFRAME_-64_RELATIVE'' 0 1 99 (Inr [''ORX_SPACECRAFT'']),
     Pxform ''ORX_SPACECRAFT'' ''ORX_OLA_HIGH'' 0 (Inr [[1, 0, 0], [0, 1, 0], [0, 0, 1]]),
     Unload ''v11.tf'' (Inr ()),
     M2q [[1, 0, 0], [0, 1, 0], [0, 0, 1]] (Inr [1, 0, 0, 0]),
     Sct2e (- 64) 1000 (Inr 500), Sct2e (- 64) 0 (Inr 0),
     Sce2t (- 64) 100 (Inr 200),
     Ckopn ''out.bc'' ''ORX FK REPLACEMENT'' 0 (Inr 1),
     Ckw02 1
      \<lparr>begtim = 0, endtim = 200, inst = - 64, ref = ''ORX_SPACECRAFT'',
         segid = ''v11.tf[ORX_OLA_HIGH]'', nrec = 1, start = [0], stop = [200],
         quats = [[1, 0, 0, 0]], avvs = [[0, 0, 0]], rates = [1 / 2]\<rparr>
      (Inr ()),
     Gipool ''FRAME_ORX_OLA_HIGH'' 0 1 (Inr [- 64]),
     Gipool ''CK_-64_SCLK'' 0 1 (Inr [- 64]), Sce2t (- 64) 100 (Inr 200),
     Furnsh ''v12.tf'' (Inr ()),
     Gcpool ''TKFRAME_-64_RELATIVE'' 0 1 99 (Inr [''ORX_SPACECRAFT'']),
     Pxform ''ORX_SPACECRAFT'' ''ORX_OLA_HIGH'' 0 (Inr [[1, 0, 0], [0, 1, 0], [0, 0, 1]]),
     Unload ''v12.tf'' (Inr ()),
     M2q [[1, 0, 0], [0, 1, 0], [0, 0, 1]] (Inr [1, 0, 0, 0]),
     Sct2e (- 64) 1000 (Inr 500), Sct2e (- 64) 0 (Inr 0),
     Gdpool ''SCLK_PARTITION_END_64'' 0 999 (Inr [1000, 2000]),
     Ckw02 1
      \<lparr>begtim = 200, endtim = 2000, inst = - 64, ref = ''ORX_SPACECRAFT'',
         segid = ''v12.tf[ORX_OLA_HIGH]'', nrec = 1, start = [200],
         stop = [2000], quats = [[1, 0, 0, 0]], avvs = [[0, 0, 0]],
         rates = [1 / 2]\<rparr>
      (Inr ()),
     Ckcls 1 (Inr ())]"
  by (simp add: run_defs toy_def s0_def)

theorem create_ck_begin_ticks_witness:
  "1 < length (written (events_of (create_ck toy False [''naif0012.tls''] [''ORX_OLA_HIGH''] 2 3 ''out.bc'') s0))
   \<and> length [''ORX_OLA_HIGH''] \<le> (1::nat)
   \<and> rev (reals s0 3) ! (1 div length [''ORX_OLA_HIGH''] - 1) = 100
   \<and> begtim (written (events_of (create_ck toy False [''naif0012.tls''] [''ORX_OLA_HIGH''] 2 3 ''out.bc'') s0) ! 1) = 200
   \<and> (\<exists>sclk_id sclks.
         Gipool (''CK_'' @ int_str (inst (written (events_of (create_ck toy False [''naif0012.tls''] [''ORX_OLA_HIGH''] 2 3 ''out.bc'') s0) ! 1)) @ ''_SCLK'') 0 1 (Inr (sclk_id # sclks))
           \<in> set (events_of (create_ck toy False [''naif0012.tls''] [''ORX_OLA_HIGH''] 2 3 ''out.bc'') s0) \<and>
         Sce2t sclk_id 100 (Inr 200)
           \<in> set (events_of (create_ck toy False [''naif0012.tls''] [''ORX_OLA_HIGH''] 2 3 ''out.bc'') s0))"
proof -
  have h: "1 < length (written (events_of (create_ck toy False [''naif0012.tls''] [''ORX_OLA_HIGH''] 2 3 ''out.bc'') s0))"
    by (simp add: toy_create_ck)
  have v: "rev (reals s0 3) ! (1 div length [''ORX_OLA_HIGH''] - 1) = 100"
    by (simp add: s0_def)
  have w: "begtim (written (events_of (create_ck toy False [''naif0012.tls''] [''ORX_OLA_HIGH''] 2 3 ''out.bc'') s0) ! 1) = 200"
    by (simp add: toy_create_ck)
  from create_ck_begin_ticks [OF h] h v w show ?thesis
    by simp
qed


lemma frame_body_sentinel:
  assumes "stop1 < - py_1e30" and "stop2 < - py_1e30"
  shows "frame_body ops doVerbose output_ck fk stop1 last_et ck_handle reffrm =
         frame_body ops doVerbose output_ck fk stop2 last_et ck_handle reffrm"
  using assms by (simp add: frame_body_def)

text \<open>
  Claim C2. For the segment number \<open>n\<close> of a run of \<^verbatim>\<open>create_ck\<close>, in the window
  \<open>n div length frames\<close> with stop time \<open>stop_et\<close>: when \<open>stop_et\<close> is below \<^verbatim>\<open>-1e30\<close> the
  end tick is the last value that \<^verbatim>\<open>sp.gdpool\<close> returned for \<^verbatim>\<open>SCLK_PARTITION_END_<-clock>\<close>,
  and otherwise it is the answer of \<^verbatim>\<open>sp.sce2t\<close> for \<open>stop_et\<close> on the frame's clock. Two stop
  times below the threshold give the same run of the loop body, whatever their distance
  from the threshold.
\<close>

theorem create_ck_end_ticks:
  fixes ops doVerbose kernels frames fks stop_ets output_ck s n
  defines "evs \<equiv> events_of (create_ck ops doVerbose kernels frames fks stop_ets output_ck) s"
  defines "stop_et \<equiv> rev (reals s stop_ets) ! (n div length frames)"
  shows "(n < length (written evs) \<longrightarrow>
          n div length frames < length (reals s stop_ets) \<and>
          (\<exists>sclk_id sclks.
             Gipool (''CK_'' @ int_str (inst (written evs ! n)) @ ''_SCLK'') 0 1 (Inr (sclk_id # sclks))
               \<in> set evs \<and>
             (if stop_et < - py_1e30
              then \<exists>vals. vals \<noteq> [] \<and> endtim (written evs ! n) = last vals \<and>
                     Gdpool (''SCLK_PARTITION_END_'' @ int_str (- sclk_id)) 0 999 (Inr vals) \<in> set evs
              else Sce2t sclk_id stop_et (Inr (endtim (written evs ! n))) \<in> set evs))) \<and>
         (\<forall>stop1 stop2 fk last_et ck_handle reffrm.
            stop1 < - py_1e30 \<and> stop2 < - py_1e30 \<longrightarrow>
            frame_body ops doVerbose output_ck fk stop1 last_et ck_handle reffrm =
            frame_body ops doVerbose output_ck fk stop2 last_et ck_handle reffrm)"
proof (intro conjI impI allI)
  assume n: "n < length (written evs)"
  have ws: "windows_segs (length frames) None (rev (reals s stop_ets)) evs"
    unfolding evs_def by (rule create_ck_segs)
  with n show "n div length frames < length (reals s stop_ets)"
    by (auto simp: windows_segs_def)
  from ws n have "end_ok stop_et (written evs ! n) evs"
    by (auto simp: windows_segs_def stop_et_def)
  then show "\<exists>sclk_id sclks.
             Gipool (''CK_'' @ int_str (inst (written evs ! n)) @ ''_SCLK'') 0 1 (Inr (sclk_id # sclks))
               \<in> set evs \<and>
             (if stop_et < - py_1e30
              then \<exists>vals. vals \<noteq> [] \<and> endtim (written evs ! n) = last vals \<and>
                     Gdpool (''SCLK_PARTITION_END_'' @ int_str (- sclk_id)) 0 999 (Inr vals) \<in> set evs
              else Sce2t sclk_id stop_et (Inr (endtim (written evs ! n))) \<in> set evs)"
    unfolding end_ok_def .
next
  fix stop1 stop2 :: real and fk last_et ck_handle reffrm
  assume "stop1 < - py_1e30 \<and> stop2 < - py_1e30"
  then show "frame_body ops doVerbose output_ck fk stop1 last_et ck_handle reffrm =
            frame_body ops doVerbose output_ck fk stop2 last_et ck_handle reffrm"
    by (simp add: frame_body_sentinel)
qed

theorem create_ck_end_ticks_witness:
  "1 < length (written (events_of (create_ck toy False [''naif0012.tls''] [''ORX_OLA_HIGH''] 2 3 ''out.bc'') s0))
   \<and> rev (reals s0 3) ! (1 div length [''ORX_OLA_HIGH'']) = - (10 ^ 32)
   \<and> (- (10 ^ 32) :: real) < - py_1e30
   \<and> endtim (written (events_of (create_ck toy False [''naif0012.tls''] [''ORX_OLA_HIGH''] 2 3 ''out.bc'') s0) ! 1) = 2000
   \<and> (\<exists>sclk_id sclks.
         Gipool (''CK_'' @ int_str (inst (written (events_of (create_ck toy False [''naif0012.tls''] [''ORX_OLA_HIGH''] 2 3 ''out.bc'') s0) ! 1)) @ ''_SCLK'') 0 1 (Inr (sclk_id # sclks))
           \<in> set (events_of (create_ck toy False [''naif0012.tls''] [''ORX_OLA_HIGH''] 2 3 ''out.bc'') s0) \<and>
         (\<exists>vals. vals \<noteq> [] \<and> 2000 = last vals \<and>
            Gdpool (''SCLK_PARTITION_END_'' @ int_str (- sclk_id)) 0 999 (Inr vals)
              \<in> set (events_of (create_ck toy False [''naif0012.tls''] [''ORX_OLA_HIGH''] 2 3 ''out.bc'') s0)))
   \<and> frame_body toy False ''out.bc'' ''v12.tf'' (- (10 ^ 31)) (Some 100) (Some 1) ''ORX_OLA_HIGH'' =
      frame_body toy False ''out.bc'' ''v12.tf'' (- (10 ^ 40)) (Some 100) (Some 1) ''ORX_OLA_HIGH''"
proof -
  have h: "1 < length (written (events_of (create_ck toy False [''naif0012.tls''] [''ORX_OLA_HIGH''] 2 3 ''out.bc'') s0))"
    by (simp add: toy_create_ck)
  have v: "rev (reals s0 3) ! (1 div length [''ORX_OLA_HIGH'']) = - (10 ^ 32)"
    by (simp add: s0_def)
  have t: "(- (10 ^ 32) :: real) < - py_1e30" "(- (10 ^ 31) :: real) < - py_1e30"
    "(- (10 ^ 40) :: real) < - py_1e30"
    by (simp_all add: py_1e30_def)
  have w: "endtim (written (events_of (create_ck toy False [''naif0012.tls''] [''ORX_OLA_HIGH''] 2 3 ''out.bc'') s0) ! 1) = 2000"
    by (simp add: toy_create_ck)
  note c = create_ck_end_ticks [of 1 toy False "[''naif0012.tls'']" "[''ORX_OLA_HIGH'']" 2 3 "''out.bc''" s0]
  from c h have a: "\<exists>sclk_id sclks.
         Gipool (''CK_'' @ int_str (inst (written (events_of (create_ck toy False [''naif0012.tls''] [''ORX_OLA_HIGH''] 2 3 ''out.bc'') s0) ! 1)) @ ''_SCLK'') 0 1 (Inr (sclk_id # sclks))
           \<in> set (events_of (create_ck toy False [''naif0012.tls''] [''ORX_OLA_HIGH''] 2 3 ''out.bc'') s0) \<and>
         (\<exists>vals. vals \<noteq> [] \<and> 2000 = last vals \<and>
            Gdpool (''SCLK_PARTITION_END_'' @ int_str (- sclk_id)) 0 999 (Inr vals)
              \<in> set (events_of (create_ck toy False [''naif0012.tls''] [''ORX_OLA_HIGH''] 2 3 ''out.bc'') s0))"
    unfolding v w using t(1) by simp
  from c t have b: "frame_body toy False ''out.bc'' ''v12.tf'' (- (10 ^ 31)) (Some 100) (Some 1) ''ORX_OLA_HIGH'' =
      frame_body toy False ''out.bc'' ''v12.tf'' (- (10 ^ 40)) (Some 100) (Some 1) ''ORX_OLA_HIGH''"
    by blast
  from h v t w a b show ?thesis by blast
qed

text \<open>
  What holds of the calls of the loops of \<^verbatim>\<open>create_ck\<close>, entered with the handle \<open>h\<close>: no
  \<^verbatim>\<open>sp.ckcls\<close> and no \<^verbatim>\<open>sp.exists\<close>; a handle that is set is kept and nothing is opened; with
  no handle at most one \<^verbatim>\<open>sp.ckopn\<close> returns, and its handle is the one the loop ends with;
  a loop that ends without a written segment made no call; the calls around the old FKs
  are in order.
\<close>

definition loop_inv :: "int option \<Rightarrow> error + int option \<Rightarrow> event list \<Rightarrow> bool" where
  "loop_inv h r evs =
     (\<not> list_ex is_Ckcls evs \<and> \<not> list_ex is_Exists evs \<and>
      (case h of
         Some x \<Rightarrow> opened evs = [] \<and> (\<forall>h'. r = Inr h' \<longrightarrow> h' = Some x)
       | None \<Rightarrow> length (opened evs) \<le> 1 \<and>
           (\<forall>h'. r = Inr h' \<longrightarrow> opened evs = (case h' of None \<Rightarrow> [] | Some hdl \<Rightarrow> [hdl]))) \<and>
      (\<forall>h'. r = Inr h' \<longrightarrow> written evs = [] \<longrightarrow> evs = [] \<and> h' = h) \<and>
      fk_scan Idle evs \<noteq> None \<and>
      (\<forall>h'. r = Inr h' \<longrightarrow> fk_scan Idle evs = Some Idle))"

lemma loop_inv_Nil: "loop_inv h (Inr h) []"
  by (cases h) (simp_all add: loop_inv_def)

lemma loop_inv_short: "loop_inv h (Inl e) []"
  by (cases h) (simp_all add: loop_inv_def)

lemma loop_inv_comp:
  assumes a: "loop_inv h (Inr h') e1" and b: "loop_inv h' r e2"
  shows "loop_inv h r (e1 @ e2)"
proof -
  from a have s1: "fk_scan Idle e1 = Some Idle" by (simp add: loop_inv_def)
  from b have s2: "fk_scan Idle e2 \<noteq> None" "\<forall>h''. r = Inr h'' \<longrightarrow> fk_scan Idle e2 = Some Idle"
    by (simp_all add: loop_inv_def)
  have scan: "fk_scan Idle (e1 @ e2) \<noteq> None"
    "\<forall>h''. r = Inr h'' \<longrightarrow> fk_scan Idle (e1 @ e2) = Some Idle"
    using s1 s2 by (simp_all add: fk_scan_append)
  have quiet: "\<not> list_ex is_Ckcls (e1 @ e2)" "\<not> list_ex is_Exists (e1 @ e2)"
    using a b by (simp_all add: loop_inv_def)
  have zero: "\<forall>h''. r = Inr h'' \<longrightarrow> written (e1 @ e2) = [] \<longrightarrow> e1 @ e2 = [] \<and> h'' = h"
    using a b by (auto simp: loop_inv_def)
  have hd: "case h of
         Some x \<Rightarrow> opened (e1 @ e2) = [] \<and> (\<forall>h''. r = Inr h'' \<longrightarrow> h'' = Some x)
       | None \<Rightarrow> length (opened (e1 @ e2)) \<le> 1 \<and>
           (\<forall>h''. r = Inr h'' \<longrightarrow> opened (e1 @ e2) = (case h'' of None \<Rightarrow> [] | Some hdl \<Rightarrow> [hdl]))"
  proof (cases h)
    case (Some x)
    with a have "opened e1 = []" "h' = Some x" by (simp_all add: loop_inv_def)
    with b Some show ?thesis by (simp add: loop_inv_def)
  next
    case None
    show ?thesis
    proof (cases h')
      case n: None
      with a None have "opened e1 = []" by (simp add: loop_inv_def)
      with b n None show ?thesis by (simp add: loop_inv_def)
    next
      case (Some hdl)
      with a None have "opened e1 = [hdl]" by (simp add: loop_inv_def)
      moreover from b Some have "opened e2 = []" "\<forall>h''. r = Inr h'' \<longrightarrow> h'' = Some hdl"
        by (simp_all add: loop_inv_def)
      ultimately show ?thesis using None by auto
    qed
  qed
  from scan quiet zero hd show ?thesis unfolding loop_inv_def by blast
qed

lemma body_inv:
  assumes "body_post output_ck fk stop_et last_et h reffrm r evs"
  shows "loop_inv h r evs"
proof (cases r)
  case (Inl e)
  with assms show ?thesis by (cases h) (auto simp: body_post_def loop_inv_def)
next
  case (Inr h')
  with assms obtain hdl sg where h': "h' = Some hdl"
    and it: "iteration output_ck fk stop_et last_et h reffrm hdl sg evs"
    by (auto simp: body_post_def)
  note f = iteration_facts [OF it]
  show ?thesis
  proof (cases h)
    case None
    with f Inr h' show ?thesis by (simp add: loop_inv_def)
  next
    case (Some x)
    with f(3) have "hdl = x" by simp
    with f Some Inr h' show ?thesis by (simp add: loop_inv_def)
  qed
qed

lemma frames_loop_inv:
  "grows (frames_loop ops doVerbose output_ck fk stop_et last_et h frames) (loop_inv h)"
proof (rule frames_loop_rule [where P = "\<lambda>h fs. loop_inv h"
        and Qb = "body_post output_ck fk stop_et last_et"])
  show "\<And>h reffrm. grows (frame_body ops doVerbose output_ck fk stop_et last_et h reffrm)
          (body_post output_ck fk stop_et last_et h reffrm)"
    by (rule frame_body_post)
  show "\<And>h. loop_inv h (Inr h) []" by (rule loop_inv_Nil)
  show "\<And>h f fs e evs. body_post output_ck fk stop_et last_et h f (Inl e) evs \<Longrightarrow> loop_inv h (Inl e) evs"
    by (rule body_inv)
  show "\<And>h f fs h' e1 r e2. body_post output_ck fk stop_et last_et h f (Inr h') e1 \<Longrightarrow>
          loop_inv h' r e2 \<Longrightarrow> loop_inv h r (e1 @ e2)"
    by (rule loop_inv_comp [OF body_inv])
qed

lemma windows_loop_inv:
  assumes run: "windows_loop ops doVerbose output_ck frames fks stop_ets last_et h s = (r, s')"
  shows "\<exists>evs. trace s' = trace s @ evs \<and> loop_inv h r evs"
proof -
  have "\<exists>evs. trace s' = trace s @ evs \<and>
         (\<lambda>last_et h ws sts. loop_inv h) last_et h (rev (strs s fks)) (rev (reals s stop_ets)) r evs"
  proof (rule windows_loop_rule [where Qf = "\<lambda>fk st last_et. loop_inv", OF _ _ _ _ _ run])
    show "\<And>fk stop_et last_et h.
       grows (frames_loop ops doVerbose output_ck fk stop_et last_et h frames) (loop_inv h)"
      by (rule frames_loop_inv)
    show "\<And>last_et h sts. loop_inv h (Inr h) []" by (rule loop_inv_Nil)
    show "\<And>last_et h fk ws. loop_inv h (Inl IndexError) []" by (rule loop_inv_short)
    show "\<And>last_et h fk ws st sts e evs. loop_inv h (Inl e) evs \<Longrightarrow> loop_inv h (Inl e) evs" .
    show "\<And>last_et h fk ws st sts h' e1 r e2.
       loop_inv h (Inr h') e1 \<Longrightarrow> loop_inv h' r e2 \<Longrightarrow> loop_inv h r (e1 @ e2)"
      by (rule loop_inv_comp)
  qed
  then show ?thesis by simp
qed

text \<open>The shape of a run of \<^verbatim>\<open>create_ck\<close>, in terms of its calls and its result.\<close>

lemma create_ck_cases:
  fixes ops doVerbose kernels frames fks stop_ets output_ck s
  defines "evs \<equiv> events_of (create_ck ops doVerbose kernels frames fks stop_ets output_ck) s"
  defines "res \<equiv> result_of (create_ck ops doVerbose kernels frames fks stop_ets output_ck) s"
  defines "s' \<equiv> snd (create_ck ops doVerbose kernels frames fks stop_ets output_ck s)"
  defines "pre \<equiv> events_of (furnsh_all ops kernels) s"
  obtains
    (furnsh_failed) e where "res = Inl e" "evs = pre" "result_of (furnsh_all ops kernels) s = Inl e"
      "strs s' = strs s" "reals s' = reals s"
  | (exists_failed) e where "res = Inl e" "evs = pre @ [Exists output_ck (Inl e)]"
      "result_of (furnsh_all ops kernels) s = Inr ()"
      "sp_exists ops (trace s @ pre) output_ck = Inl e" "strs s' = strs s" "reals s' = reals s"
  | (refused) "res = Inl (KeyError (''Cannot overwrite existing CK['' @ output_ck @ '']''))"
      "evs = pre @ [Exists output_ck (Inr True)]"
      "result_of (furnsh_all ops kernels) s = Inr ()"
      "sp_exists ops (trace s @ pre) output_ck = Inr True" "strs s' = strs s" "reals s' = reals s"
  | (loop_failed) lp e s1 s2 where "res = Inl e" "evs = pre @ [Exists output_ck (Inr False)] @ lp"
      "result_of (furnsh_all ops kernels) s = Inr ()"
      "sp_exists ops (trace s @ pre) output_ck = Inr False"
      "s1 = s\<lparr>trace := trace s @ pre @ [Exists output_ck (Inr False)]\<rparr>"
      "windows_loop ops doVerbose output_ck frames fks stop_ets None None s1 = (Inl e, s2)"
      "trace s2 = trace s1 @ lp" "s' = s2"
  | (nothing) lp s1 s2 where "res = Inr ()" "evs = pre @ [Exists output_ck (Inr False)] @ lp"
      "result_of (furnsh_all ops kernels) s = Inr ()"
      "sp_exists ops (trace s @ pre) output_ck = Inr False"
      "s1 = s\<lparr>trace := trace s @ pre @ [Exists output_ck (Inr False)]\<rparr>"
      "windows_loop ops doVerbose output_ck frames fks stop_ets None None s1 = (Inr None, s2)"
      "trace s2 = trace s1 @ lp" "s' = s2"
  | (closed) lp hdl s1 s2 where
      "evs = pre @ [Exists output_ck (Inr False)] @ lp @ [Ckcls hdl res]"
      "result_of (furnsh_all ops kernels) s = Inr ()"
      "sp_exists ops (trace s @ pre) output_ck = Inr False"
      "s1 = s\<lparr>trace := trace s @ pre @ [Exists output_ck (Inr False)]\<rparr>"
      "windows_loop ops doVerbose output_ck frames fks stop_ets None None s1 = (Inr (Some hdl), s2)"
      "trace s2 = trace s1 @ lp" "s' = s2\<lparr>trace := trace s2 @ [Ckcls hdl res]\<rparr>"
proof -
  have run: "create_ck ops doVerbose kernels frames fks stop_ets output_ck s = (res, s')"
    by (simp add: res_def s'_def result_of_def)
  have ev: "\<And>es. trace s' = trace s @ es \<Longrightarrow> evs = es"
    by (simp add: evs_def events_of_def s'_def)
  have fa: "\<And>r0 p. furnsh_all ops kernels s = (r0, s\<lparr>trace := trace s @ p\<rparr>) \<Longrightarrow>
              pre = p \<and> result_of (furnsh_all ops kernels) s = r0"
    by (simp add: pre_def events_of_def result_of_def)
  from run show thesis
  proof (cases rule: create_ck_run)
    case (furnsh_failed p e)
    from fa [of "Inl e" p] furnsh_failed have "pre = p" "result_of (furnsh_all ops kernels) s = Inl e"
      by simp_all
    moreover from furnsh_failed have "evs = p" by (intro ev) simp
    ultimately show thesis using furnsh_failed by (intro that(1) [of e]) simp_all
  next
    case (exists_failed p e)
    from fa [OF exists_failed(4)] have "pre = p" "result_of (furnsh_all ops kernels) s = Inr ()"
      by simp_all
    moreover from exists_failed have "evs = p @ [Exists output_ck (Inl e)]" by (intro ev) simp
    ultimately show thesis using exists_failed by (intro that(2) [of e]) simp_all
  next
    case (refused p)
    from fa [OF refused(4)] have "pre = p" "result_of (furnsh_all ops kernels) s = Inr ()"
      by simp_all
    moreover from refused have "evs = p @ [Exists output_ck (Inr True)]" by (intro ev) simp
    ultimately show thesis using refused by (intro that(3)) simp_all
  next
    case (looped p s1 rl s2)
    from fa [OF looped(2)] have p: "pre = p" "result_of (furnsh_all ops kernels) s = Inr ()"
      by simp_all
    from windows_loop_inv [OF looped(5)] obtain lp where lp: "trace s2 = trace s1 @ lp" by blast
    from looped(6) show thesis
    proof (elim disjE exE conjE)
      fix e assume a: "rl = Inl e" "res = Inl e" "s' = s2"
      then have "evs = p @ [Exists output_ck (Inr False)] @ lp"
        using lp looped(4) by (intro ev) simp
      with a p looped lp show thesis by (intro that(4) [of e lp s1 s2]) simp_all
    next
      assume a: "rl = Inr None" "res = Inr ()" "s' = s2"
      then have "evs = p @ [Exists output_ck (Inr False)] @ lp"
        using lp looped(4) by (intro ev) simp
      with a p looped lp show thesis by (intro that(5) [of lp s1 s2]) simp_all
    next
      fix hdl assume a: "rl = Inr (Some hdl)" "res = sp_ckcls ops (trace s2) hdl"
        "s' = s2\<lparr>trace := trace s2 @ [Ckcls hdl res]\<rparr>"
      then have "evs = p @ [Exists output_ck (Inr False)] @ lp @ [Ckcls hdl res]"
        using lp looped(4) by (intro ev) simp
      with a p looped lp show thesis by (intro that(6) [of lp hdl s1 s2]) simp_all
    qed
  qed
qed

lemma furnsh_only: "list_all is_Furnsh (events_of (furnsh_all ops kernels) s)"
proof -
  obtain r0 s0 where f: "furnsh_all ops kernels s = (r0, s0)" by (cases "furnsh_all ops kernels s")
  from growsD [OF grows_furnsh_all f] obtain pre where
    "s0 = s\<lparr>trace := trace s @ pre\<rparr>" "list_all is_Furnsh pre" by blast
  with f show ?thesis by (simp add: events_of_def)
qed

lemma list_all_weaken: "list_all P xs \<Longrightarrow> (\<And>x. P x \<Longrightarrow> Q x) \<Longrightarrow> list_all Q xs"
  by (induction xs) auto

lemma furnsh_no_other:
  assumes "list_all is_Furnsh pre"
  shows "\<not> list_ex is_Exists pre" "\<not> list_ex is_Ckopn pre" "\<not> list_ex is_Ckw02 pre"
    "\<not> list_ex is_Ckcls pre" "filter is_Exists pre = []"
  using assms by (induction pre) (auto simp: is_Furnsh_def)

lemma exists_once:
  assumes pre: "list_all is_Furnsh pre" and x: "is_Exists x" and rest: "\<not> list_ex is_Exists rest"
  shows "length (filter is_Exists (pre @ [x] @ rest)) \<le> 1 \<and>
         (\<forall>i < length (pre @ [x] @ rest). is_Exists ((pre @ [x] @ rest) ! i) \<longrightarrow>
            list_all is_Furnsh (take i (pre @ [x] @ rest)))"
proof (intro conjI allI impI)
  have "filter is_Exists rest = []" using rest by (induction rest) auto
  then show "length (filter is_Exists (pre @ [x] @ rest)) \<le> 1"
    using pre x by (simp add: furnsh_no_other)
next
  fix i assume i: "i < length (pre @ [x] @ rest)" and e: "is_Exists ((pre @ [x] @ rest) ! i)"
  have np: "\<And>j. j < length pre \<Longrightarrow> \<not> is_Exists (pre ! j)"
    using pre by (auto simp: list_all_length is_Furnsh_def)
  have nr: "\<And>j. j < length rest \<Longrightarrow> \<not> is_Exists (rest ! j)"
    using rest by (auto simp: list_ex_length)
  have "i = length pre"
  proof (rule ccontr)
    assume ne: "i \<noteq> length pre"
    show False
    proof (cases "i < length pre")
      case True
      with e np show False by (simp add: nth_append)
    next
      case False
      with ne have gt: "length pre < i" by simp
      then have "(pre @ [x] @ rest) ! i = rest ! (i - length pre - 1)"
        by (simp add: nth_append nth_Cons')
      moreover from gt i have "i - length pre - 1 < length rest" by simp
      ultimately show False using e nr by simp
    qed
  qed
  with pre show "list_all is_Furnsh (take i (pre @ [x] @ rest))" by simp
qed

lemma exists_never:
  assumes pre: "list_all is_Furnsh pre"
  shows "length (filter is_Exists pre) \<le> 1 \<and>
         (\<forall>i < length pre. is_Exists (pre ! i) \<longrightarrow> list_all is_Furnsh (take i pre))"
  using pre by (auto simp: furnsh_no_other list_all_length is_Furnsh_def)


lemma create_ck_trace:
  "trace (snd (create_ck ops doVerbose kernels frames fks stop_ets output_ck s)) =
   trace s @ events_of (create_ck ops doVerbose kernels frames fks stop_ets output_ck) s"
proof -
  obtain r s' where run: "create_ck ops doVerbose kernels frames fks stop_ets output_ck s = (r, s')"
    by (cases "create_ck ops doVerbose kernels frames fks stop_ets output_ck s")
  have "\<exists>es. trace s' = trace s @ es"
    using run
  proof (cases rule: create_ck_run)
    case (looped pre s1 rl s2)
    from windows_loop_inv [OF looped(5)] obtain lp where "trace s2 = trace s1 @ lp" by blast
    with looped(4,6) show ?thesis by (elim disjE exE conjE) simp_all
  qed simp_all
  with run show ?thesis by (auto simp: events_of_def)
qed

lemma create_ck_exists_true:
  fixes ops doVerbose kernels frames fks stop_ets output_ck s
  defines "evs \<equiv> events_of (create_ck ops doVerbose kernels frames fks stop_ets output_ck) s"
  defines "res \<equiv> result_of (create_ck ops doVerbose kernels frames fks stop_ets output_ck) s"
  defines "s' \<equiv> snd (create_ck ops doVerbose kernels frames fks stop_ets output_ck s)"
  assumes ex: "sp_exists ops (trace s @ events_of (furnsh_all ops kernels) s) output_ck = Inr True"
  shows "(\<exists>e. res = Inl e) \<and>
         (result_of (furnsh_all ops kernels) s = Inr () \<longrightarrow>
            res = Inl (KeyError (''Cannot overwrite existing CK['' @ output_ck @ '']''))) \<and>
         list_all (\<lambda>ev. is_Furnsh ev \<or> ev = Exists output_ck (Inr True)) evs \<and>
         strs s' = strs s \<and> reals s' = reals s"
proof (rule create_ck_cases [of ops doVerbose kernels frames fks stop_ets output_ck s],
    fold evs_def res_def s'_def, goal_cases)
  case (1 e)
  from furnsh_only [of ops kernels s] 1 show ?case by (auto elim: list_all_weaken)
next
  case (2 e)
  with ex show ?case by simp
next
  case 3
  have "list_all (\<lambda>ev. is_Furnsh ev \<or> ev = Exists output_ck (Inr True))
          (events_of (furnsh_all ops kernels) s)"
    using furnsh_only [of ops kernels s] by (rule list_all_weaken) simp
  with 3 show ?case by simp
next
  case (4 lp e s1 s2)
  with ex show ?case by simp
next
  case (5 lp s1 s2)
  with ex show ?case by simp
next
  case (6 lp hdl s1 s2)
  with ex show ?case by simp
qed

lemma create_ck_exists_once:
  fixes ops doVerbose kernels frames fks stop_ets output_ck s
  defines "evs \<equiv> events_of (create_ck ops doVerbose kernels frames fks stop_ets output_ck) s"
  shows "length (filter is_Exists evs) \<le> 1 \<and>
         (\<forall>i < length evs. is_Exists (evs ! i) \<longrightarrow> list_all is_Furnsh (take i evs))"
proof (rule create_ck_cases [of ops doVerbose kernels frames fks stop_ets output_ck s],
    fold evs_def, goal_cases)
  case (1 e)
  from exists_never [OF furnsh_only [of ops kernels s]] 1 show ?case by simp
next
  case (2 e)
  note pre = furnsh_only [of ops kernels s]
  from exists_once [OF pre, of "Exists output_ck (Inl e)" "[]"] 2 show ?case by simp
next
  case 3
  note pre = furnsh_only [of ops kernels s]
  from exists_once [OF pre, of "Exists output_ck (Inr True)" "[]"] 3 show ?case by simp
next
  case (4 lp e s1 s2)
  note pre = furnsh_only [of ops kernels s]
  from windows_loop_inv [OF 4(6)] 4(7) have "\<not> list_ex is_Exists lp" by (auto simp: loop_inv_def)
  from exists_once [OF pre _ this, of "Exists output_ck (Inr False)"] 4 show ?case by simp
next
  case (5 lp s1 s2)
  note pre = furnsh_only [of ops kernels s]
  from windows_loop_inv [OF 5(6)] 5(7) have "\<not> list_ex is_Exists lp" by (auto simp: loop_inv_def)
  from exists_once [OF pre _ this, of "Exists output_ck (Inr False)"] 5 show ?case by simp
next
  case (6 lp hdl s1 s2)
  note pre = furnsh_only [of ops kernels s]
  from windows_loop_inv [OF 6(5)] 6(6) have "\<not> list_ex is_Exists lp" by (auto simp: loop_inv_def)
  then have "\<not> list_ex is_Exists (lp @ [Ckcls hdl (result_of (create_ck ops doVerbose kernels frames fks stop_ets output_ck) s)])" by simp
  from exists_once [OF pre _ this, of "Exists output_ck (Inr False)"] 6 show ?case by simp
qed

text \<open>
  Claim C3. When \<^verbatim>\<open>sp.exists(output_ck)\<close> answers true at the moment \<^verbatim>\<open>create_ck\<close> asks, that
  is after the kernels are loaded, the call ends with an error: the KeyError of line 88, or
  the error of a \<^verbatim>\<open>sp.furnsh\<close> that failed before. Its calls are then \<^verbatim>\<open>sp.furnsh\<close> calls and
  at most the one \<^verbatim>\<open>sp.exists\<close>: nothing is opened, nothing is written, and the lists are
  not touched. In any run \<^verbatim>\<open>sp.exists\<close> is called at most once, and only \<^verbatim>\<open>sp.furnsh\<close> calls
  come before it. Consequently, in an environment where a file that \<^verbatim>\<open>sp.ckopn\<close> created
  exists from then on, a call that follows a call which opened the same path fails in
  the same way.
\<close>

theorem create_ck_refuses_existing:
  fixes ops doVerbose kernels frames fks stop_ets output_ck s
  defines "evs \<equiv> events_of (create_ck ops doVerbose kernels frames fks stop_ets output_ck) s"
  defines "res \<equiv> result_of (create_ck ops doVerbose kernels frames fks stop_ets output_ck) s"
  defines "s' \<equiv> snd (create_ck ops doVerbose kernels frames fks stop_ets output_ck s)"
  shows "(sp_exists ops (trace s @ events_of (furnsh_all ops kernels) s) output_ck = Inr True \<longrightarrow>
            (\<exists>e. res = Inl e) \<and>
            (result_of (furnsh_all ops kernels) s = Inr () \<longrightarrow>
               res = Inl (KeyError (''Cannot overwrite existing CK['' @ output_ck @ '']''))) \<and>
            list_all (\<lambda>ev. is_Furnsh ev \<or> ev = Exists output_ck (Inr True)) evs \<and>
            strs s' = strs s \<and> reals s' = reals s) \<and>
         length (filter is_Exists evs) \<le> 1 \<and>
         (\<forall>i < length evs. is_Exists (evs ! i) \<longrightarrow> list_all is_Furnsh (take i evs)) \<and>
         ((\<forall>h. (\<exists>l n hdl. Ckopn output_ck l n (Inr hdl) \<in> set h) \<longrightarrow>
                sp_exists ops h output_ck = Inr True) \<and>
          (\<exists>l n hdl. Ckopn output_ck l n (Inr hdl) \<in> set evs) \<longrightarrow>
            (\<forall>doVerbose2 kernels2 frames2 fks2 stop_ets2.
               (\<exists>e. result_of (create_ck ops doVerbose2 kernels2 frames2 fks2 stop_ets2 output_ck) s'
                      = Inl e) \<and>
               list_all (\<lambda>ev. is_Furnsh ev \<or> ev = Exists output_ck (Inr True))
                 (events_of (create_ck ops doVerbose2 kernels2 frames2 fks2 stop_ets2 output_ck) s')))"
proof (intro conjI impI allI)
  assume "sp_exists ops (trace s @ events_of (furnsh_all ops kernels) s) output_ck = Inr True"
  from create_ck_exists_true [OF this, of doVerbose frames fks stop_ets]
  show "\<exists>e. res = Inl e"
    and "list_all (\<lambda>ev. is_Furnsh ev \<or> ev = Exists output_ck (Inr True)) evs"
    and "strs s' = strs s" and "reals s' = reals s"
    and "result_of (furnsh_all ops kernels) s = Inr () \<Longrightarrow>
           res = Inl (KeyError (''Cannot overwrite existing CK['' @ output_ck @ '']''))"
    unfolding evs_def res_def s'_def by simp_all
next
  from create_ck_exists_once [of ops doVerbose kernels frames fks stop_ets output_ck s]
  show "length (filter is_Exists evs) \<le> 1"
    and "\<And>i. i < length evs \<Longrightarrow> is_Exists (evs ! i) \<Longrightarrow> list_all is_Furnsh (take i evs)"
    unfolding evs_def by simp_all
next
  fix doVerbose2 kernels2 frames2 fks2 stop_ets2
  assume a: "(\<forall>h. (\<exists>l n hdl. Ckopn output_ck l n (Inr hdl) \<in> set h) \<longrightarrow>
                sp_exists ops h output_ck = Inr True) \<and>
          (\<exists>l n hdl. Ckopn output_ck l n (Inr hdl) \<in> set evs)"
  then obtain l n hdl where "Ckopn output_ck l n (Inr hdl) \<in> set evs" by blast
  then have "Ckopn output_ck l n (Inr hdl) \<in> set (trace s' @ events_of (furnsh_all ops kernels2) s')"
    unfolding s'_def evs_def by (simp add: create_ck_trace)
  with a have ex: "sp_exists ops (trace s' @ events_of (furnsh_all ops kernels2) s') output_ck = Inr True"
    by blast
  from create_ck_exists_true [OF ex, of doVerbose2 frames2 fks2 stop_ets2]
  show "\<exists>e. result_of (create_ck ops doVerbose2 kernels2 frames2 fks2 stop_ets2 output_ck) s' = Inl e"
    and "list_all (\<lambda>ev. is_Furnsh ev \<or> ev = Exists output_ck (Inr True))
                 (events_of (create_ck ops doVerbose2 kernels2 frames2 fks2 stop_ets2 output_ck) s')"
    by simp_all
qed

lemma toy_furnsh: "sp_furnsh toy h k = Inr ()"
  by (simp add: toy_def)

lemma toy_furnsh_all: "result_of (furnsh_all toy [k]) s = Inr ()"
  by (simp add: result_of_def bnd_def return_def furnsh_def call_def Let_def toy_furnsh)

lemma toy_exists_iff:
  "\<forall>h. sp_exists toy h ''out.bc'' = Inr (\<exists>l n hdl. Ckopn ''out.bc'' l n (Inr hdl) \<in> set h)"
proof
  fix h
  have "list_ex (\<lambda>ev. case ev of Ckopn p' l n (Inr hdl) \<Rightarrow> p' = ''out.bc'' | _ \<Rightarrow> False) h
        = (\<exists>l n hdl. Ckopn ''out.bc'' l n (Inr hdl) \<in> set h)"
  proof
    assume "list_ex (\<lambda>ev. case ev of Ckopn p' l n (Inr hdl) \<Rightarrow> p' = ''out.bc'' | _ \<Rightarrow> False) h"
    then obtain ev where m: "ev \<in> set h"
      and c: "case ev of Ckopn p' l n (Inr hdl) \<Rightarrow> p' = ''out.bc'' | _ \<Rightarrow> False"
      by (auto simp: list_ex_iff)
    from c obtain l n hdl where "ev = Ckopn ''out.bc'' l n (Inr hdl)"
      by (cases ev) (auto split: sum.splits)
    with m show "\<exists>l n hdl. Ckopn ''out.bc'' l n (Inr hdl) \<in> set h"
      by blast
  next
    assume "\<exists>l n hdl. Ckopn ''out.bc'' l n (Inr hdl) \<in> set h"
    then obtain l n hdl where "Ckopn ''out.bc'' l n (Inr hdl) \<in> set h" by blast
    then show "list_ex (\<lambda>ev. case ev of Ckopn p' l n (Inr hdl) \<Rightarrow> p' = ''out.bc'' | _ \<Rightarrow> False) h"
      unfolding list_ex_iff by (rule rev_bexI) simp
  qed
  then show "sp_exists toy h ''out.bc'' = Inr (\<exists>l n hdl. Ckopn ''out.bc'' l n (Inr hdl) \<in> set h)"
    by (simp add: toy_def)
qed

theorem create_ck_refuses_existing_witness:
  "(\<forall>h. sp_exists toy h ''out.bc'' = Inr (\<exists>l n hdl. Ckopn ''out.bc'' l n (Inr hdl) \<in> set h))
   \<and> (\<exists>l n hdl. Ckopn ''out.bc'' l n (Inr hdl)
          \<in> set (events_of (create_ck toy False [''naif0012.tls''] [''ORX_OLA_HIGH''] 2 3 ''out.bc'') s0))
   \<and> sp_exists toy
        (trace (snd (create_ck toy False [''naif0012.tls''] [''ORX_OLA_HIGH''] 2 3 ''out.bc'' s0)) @
         events_of (furnsh_all toy [''naif0012.tls''])
           (snd (create_ck toy False [''naif0012.tls''] [''ORX_OLA_HIGH''] 2 3 ''out.bc'' s0)))
        ''out.bc'' = Inr True
   \<and> result_of (furnsh_all toy [''naif0012.tls''])
        (snd (create_ck toy False [''naif0012.tls''] [''ORX_OLA_HIGH''] 2 3 ''out.bc'' s0)) = Inr ()
   \<and> result_of (create_ck toy False [''naif0012.tls''] [''ORX_OLA_HIGH''] 2 3 ''out.bc'')
        (snd (create_ck toy False [''naif0012.tls''] [''ORX_OLA_HIGH''] 2 3 ''out.bc'' s0))
      = Inl (KeyError ''Cannot overwrite existing CK[out.bc]'')
   \<and> list_all (\<lambda>ev. is_Furnsh ev \<or> ev = Exists ''out.bc'' (Inr True))
        (events_of (create_ck toy False [''naif0012.tls''] [''ORX_OLA_HIGH''] 2 3 ''out.bc'')
           (snd (create_ck toy False [''naif0012.tls''] [''ORX_OLA_HIGH''] 2 3 ''out.bc'' s0)))"
proof -
  let ?s1 = "snd (create_ck toy False [''naif0012.tls''] [''ORX_OLA_HIGH''] 2 3 ''out.bc'' s0)"
  note q = toy_exists_iff
  then have p: "\<forall>h. (\<exists>l n hdl. Ckopn ''out.bc'' l n (Inr hdl) \<in> set h) \<longrightarrow> sp_exists toy h ''out.bc'' = Inr True"
    by simp
  have o: "\<exists>l n hdl. Ckopn ''out.bc'' l n (Inr hdl)
          \<in> set (events_of (create_ck toy False [''naif0012.tls''] [''ORX_OLA_HIGH''] 2 3 ''out.bc'') s0)"
    by (simp add: toy_create_ck)
  then have "\<exists>l n hdl. Ckopn ''out.bc'' l n (Inr hdl)
          \<in> set (trace ?s1 @ events_of (furnsh_all toy [''naif0012.tls'']) ?s1)"
    by (auto simp: create_ck_trace)
  with p have e: "sp_exists toy (trace ?s1 @ events_of (furnsh_all toy [''naif0012.tls'']) ?s1) ''out.bc''
      = Inr True" by blast
  have f: "result_of (furnsh_all toy [''naif0012.tls'']) ?s1 = Inr ()"
    by (rule toy_furnsh_all)
  from create_ck_refuses_existing [where ops = toy and kernels = "[''naif0012.tls'']" and s = ?s1
      and output_ck = "''out.bc''" and doVerbose = False and frames = "[''ORX_OLA_HIGH'']"
      and fks = 2 and stop_ets = 3] e f
  have "result_of (create_ck toy False [''naif0012.tls''] [''ORX_OLA_HIGH''] 2 3 ''out.bc'') ?s1
      = Inl (KeyError ''Cannot overwrite existing CK[out.bc]'')"
    and "list_all (\<lambda>ev. is_Furnsh ev \<or> ev = Exists ''out.bc'' (Inr True))
        (events_of (create_ck toy False [''naif0012.tls''] [''ORX_OLA_HIGH''] 2 3 ''out.bc'') ?s1)"
    by simp_all
  with q o e f show ?thesis by blast
qed

lemma butlast_no: "\<not> list_ex P xs \<Longrightarrow> \<not> list_ex P (butlast xs)"
  by (auto simp: list_ex_iff dest: in_set_butlastD)

lemma furnsh_exists_quiet:
  assumes "list_all is_Furnsh pre"
  shows "opened (pre @ [Exists p r]) = []" "written (pre @ [Exists p r]) = []"
    "\<not> list_ex is_Ckcls (pre @ [Exists p r])" "\<not> list_ex is_Ckopn (pre @ [Exists p r])"
    "list_all (\<lambda>ev. is_Furnsh ev \<or> is_Exists ev) (pre @ [Exists p r])"
  using assms by (auto simp: furnsh_quiet furnsh_no_other elim: list_all_weaken)

lemma furnsh_weak:
  "list_all is_Furnsh pre \<Longrightarrow> list_all (\<lambda>ev. is_Furnsh ev \<or> is_Exists ev) pre"
  by (auto elim: list_all_weaken)

definition toy_w :: spice where
  "toy_w = toy\<lparr>sp_ckw02 := (\<lambda>h hdl sg. Inl (SpiceError ''write failed''))\<rparr>"

text \<open>
  Claim C4, as stated, fails: \<^verbatim>\<open>create_ck\<close> has no handler around its loop. In the sample
  environment with a \<^verbatim>\<open>sp.ckw02\<close> that raises, the output is opened, the error leaves
  \<^verbatim>\<open>create_ck\<close>, and \<^verbatim>\<open>sp.ckcls\<close> is never called.
\<close>

theorem create_ck_leaves_open_counterexample:
  "result_of (create_ck toy_w False [''naif0012.tls''] [''ORX_OLA_HIGH''] 2 3 ''out.bc'') s0
     = Inl (SpiceError ''write failed'')
   \<and> opened (events_of (create_ck toy_w False [''naif0012.tls''] [''ORX_OLA_HIGH''] 2 3 ''out.bc'') s0) = [1]
   \<and> \<not> list_ex is_Ckcls
        (events_of (create_ck toy_w False [''naif0012.tls''] [''ORX_OLA_HIGH''] 2 3 ''out.bc'') s0)"
  by (simp add: run_defs toy_w_def toy_def s0_def)

text \<open>
  Claim C4, amended. At most one \<^verbatim>\<open>sp.ckopn\<close> returns in a run of \<^verbatim>\<open>create_ck\<close>. When
  \<^verbatim>\<open>create_ck\<close> returns normally after opening the output, its last call is \<^verbatim>\<open>sp.ckcls\<close> on
  the handle that \<^verbatim>\<open>sp.ckopn\<close> returned, and that is its only \<^verbatim>\<open>sp.ckcls\<close>. When nothing was
  opened there is no \<^verbatim>\<open>sp.ckcls\<close>. When \<^verbatim>\<open>create_ck\<close> ends with an error, no \<^verbatim>\<open>sp.ckcls\<close> has
  returned: either there is none, or it is the last call and the error is its own.
\<close>

theorem create_ck_closes_on_return:
  fixes ops doVerbose kernels frames fks stop_ets output_ck s
  defines "evs \<equiv> events_of (create_ck ops doVerbose kernels frames fks stop_ets output_ck) s"
  defines "res \<equiv> result_of (create_ck ops doVerbose kernels frames fks stop_ets output_ck) s"
  shows "length (opened evs) \<le> 1 \<and>
         (opened evs = [] \<longrightarrow> \<not> list_ex is_Ckcls evs) \<and>
         (res = Inr () \<longrightarrow>
            (\<forall>hdl. opened evs = [hdl] \<longrightarrow>
               evs \<noteq> [] \<and> last evs = Ckcls hdl (Inr ()) \<and> \<not> list_ex is_Ckcls (butlast evs))) \<and>
         (\<forall>e. res = Inl e \<longrightarrow>
            \<not> list_ex is_Ckcls (butlast evs) \<and>
            (list_ex is_Ckcls evs \<longrightarrow> (\<exists>hdl. last evs = Ckcls hdl (Inl e))))"
proof (rule create_ck_cases [of ops doVerbose kernels frames fks stop_ets output_ck s],
    fold evs_def res_def, goal_cases)
  case (1 e)
  note pre = furnsh_only [of ops kernels s]
  from 1 pre show ?case by (simp add: furnsh_quiet furnsh_no_other butlast_no)
next
  case (2 e)
  note q = furnsh_exists_quiet [OF furnsh_only [of ops kernels s], where p = output_ck and r = "Inl e"]
  from 2 q show ?case by (simp add: butlast_no)
next
  case 3
  note q = furnsh_exists_quiet [OF furnsh_only [of ops kernels s], where p = output_ck and r = "Inr True"]
  from 3 q show ?case by (simp add: butlast_no)
next
  case (4 lp e s1 s2)
  note q = furnsh_exists_quiet [OF furnsh_only [of ops kernels s], where p = output_ck and r = "Inr False"]
  from windows_loop_inv [OF 4(6)] 4(7) have inv: "loop_inv None (Inl e) lp" by simp
  then have "length (opened lp) \<le> 1" "\<not> list_ex is_Ckcls lp" by (simp_all add: loop_inv_def)
  with q 4(2) have a: "length (opened evs) \<le> 1" and b: "\<not> list_ex is_Ckcls evs" by simp_all
  from b have "\<not> list_ex is_Ckcls (butlast evs)" by (rule butlast_no)
  with a b 4(1) show ?case by simp
next
  case (5 lp s1 s2)
  note q = furnsh_exists_quiet [OF furnsh_only [of ops kernels s], where p = output_ck and r = "Inr False"]
  from windows_loop_inv [OF 5(6)] 5(7) have inv: "loop_inv None (Inr None) lp" by simp
  then have "opened lp = []" "\<not> list_ex is_Ckcls lp" by (simp_all add: loop_inv_def)
  with q 5(2) have a: "opened evs = []" and b: "\<not> list_ex is_Ckcls evs" by simp_all
  with 5(1) show ?case by simp
next
  case (6 lp hdl s1 s2)
  note q = furnsh_exists_quiet [OF furnsh_only [of ops kernels s], where p = output_ck and r = "Inr False"]
  from windows_loop_inv [OF 6(5)] 6(6) have inv: "loop_inv None (Inr (Some hdl)) lp" by simp
  then have o: "opened lp = [hdl]" and c: "\<not> list_ex is_Ckcls lp" by (simp_all add: loop_inv_def)
  from 6(1) have bl: "butlast evs = events_of (furnsh_all ops kernels) s @ [Exists output_ck (Inr False)] @ lp"
    and la: "last evs = Ckcls hdl res" and ne: "evs \<noteq> []"
    by (simp_all add: butlast_append)
  from q o 6(1) have a: "opened evs = [hdl]" by simp
  from q c bl have b: "\<not> list_ex is_Ckcls (butlast evs)" by simp
  from a b la ne show ?case by auto
qed

theorem create_ck_closes_on_return_witness:
  "result_of (create_ck toy False [''naif0012.tls''] [''ORX_OLA_HIGH''] 2 3 ''out.bc'') s0 = Inr ()
   \<and> opened (events_of (create_ck toy False [''naif0012.tls''] [''ORX_OLA_HIGH''] 2 3 ''out.bc'') s0) = [1]
   \<and> last (events_of (create_ck toy False [''naif0012.tls''] [''ORX_OLA_HIGH''] 2 3 ''out.bc'') s0)
        = Ckcls 1 (Inr ())
   \<and> \<not> list_ex is_Ckcls
         (butlast (events_of (create_ck toy False [''naif0012.tls''] [''ORX_OLA_HIGH''] 2 3 ''out.bc'') s0))"
proof -
  have r: "result_of (create_ck toy False [''naif0012.tls''] [''ORX_OLA_HIGH''] 2 3 ''out.bc'') s0 = Inr ()"
    by (simp add: run_defs toy_def s0_def)
  have o: "opened (events_of (create_ck toy False [''naif0012.tls''] [''ORX_OLA_HIGH''] 2 3 ''out.bc'') s0) = [1]"
    by (simp add: toy_create_ck)
  from create_ck_closes_on_return [where ops = toy and kernels = "[''naif0012.tls'']" and s = s0
      and output_ck = "''out.bc''" and doVerbose = False and frames = "[''ORX_OLA_HIGH'']"
      and fks = 2 and stop_ets = 3] r o
  show ?thesis by simp
qed

lemma windows_loop_no_frames:
  assumes run: "windows_loop ops doVerbose output_ck [] fks stop_ets last_et h s = (r, s')"
  shows "trace s' = trace s \<and> (length (strs s fks) \<le> length (reals s stop_ets) \<longrightarrow> r = Inr h)"
proof -
  have "\<exists>evs. trace s' = trace s @ evs \<and>
         (\<lambda>last_et h ws sts r evs. evs = [] \<and> (length ws \<le> length sts \<longrightarrow> r = Inr h))
            last_et h (rev (strs s fks)) (rev (reals s stop_ets)) r evs"
  proof (rule windows_loop_rule [where Qf = "\<lambda>fk st last_et h r evs. evs = [] \<and> r = Inr h",
        OF _ _ _ _ _ run])
    show "\<And>fk stop_et last_et h.
       grows (frames_loop ops doVerbose output_ck fk stop_et last_et h []) (\<lambda>r evs. evs = [] \<and> r = Inr h)"
      by (simp, rule grows_weaken, rule grows_return) simp
  qed auto
  then show ?thesis by simp
qed

lemma windows_loop_no_windows:
  assumes run: "windows_loop ops doVerbose output_ck frames fks stop_ets last_et h s = (r, s')"
    and empty: "strs s fks = []"
  shows "trace s' = trace s \<and> r = Inr h"
  using run empty by simp

text \<open>
  Claim C7. When \<^verbatim>\<open>create_ck\<close> returns normally without a written segment, it has called
  neither \<^verbatim>\<open>sp.ckopn\<close> nor \<^verbatim>\<open>sp.ckcls\<close>: its calls are the \<^verbatim>\<open>sp.furnsh\<close> of the kernels and
  the one \<^verbatim>\<open>sp.exists\<close>. With no frame to convert, or with no old FK, these are the only
  calls in every run, and the run returns normally whenever the kernels load, the output
  does not exist and there is a stop time for every old FK.
\<close>

theorem create_ck_empty:
  fixes ops doVerbose kernels frames fks stop_ets output_ck s
  defines "evs \<equiv> events_of (create_ck ops doVerbose kernels frames fks stop_ets output_ck) s"
  defines "res \<equiv> result_of (create_ck ops doVerbose kernels frames fks stop_ets output_ck) s"
  shows "(res = Inr () \<and> written evs = [] \<longrightarrow>
            \<not> list_ex is_Ckopn evs \<and> \<not> list_ex is_Ckcls evs \<and>
            list_all (\<lambda>ev. is_Furnsh ev \<or> is_Exists ev) evs) \<and>
         (frames = [] \<or> strs s fks = [] \<longrightarrow>
            list_all (\<lambda>ev. is_Furnsh ev \<or> is_Exists ev) evs \<and>
            (result_of (furnsh_all ops kernels) s = Inr () \<and>
             sp_exists ops (trace s @ events_of (furnsh_all ops kernels) s) output_ck = Inr False \<and>
             length (strs s fks) \<le> length (reals s stop_ets) \<longrightarrow> res = Inr ()))"
proof (rule create_ck_cases [of ops doVerbose kernels frames fks stop_ets output_ck s],
    fold evs_def res_def, goal_cases)
  case (1 e)
  from 1 furnsh_only [of ops kernels s] show ?case by (simp add: furnsh_weak)
next
  case (2 e)
  note q = furnsh_exists_quiet [OF furnsh_only [of ops kernels s], where p = output_ck and r = "Inl e"]
  from 2 q show ?case by simp
next
  case 3
  note q = furnsh_exists_quiet [OF furnsh_only [of ops kernels s], where p = output_ck and r = "Inr True"]
  from 3 q show ?case by simp
next
  case (4 lp e s1 s2)
  note q = furnsh_exists_quiet [OF furnsh_only [of ops kernels s], where p = output_ck and r = "Inr False"]
  have "frames = [] \<or> strs s fks = [] \<Longrightarrow>
          lp = [] \<and> \<not> length (strs s fks) \<le> length (reals s stop_ets)"
  proof (erule disjE)
    assume "frames = []"
    with windows_loop_no_frames [of ops doVerbose output_ck fks stop_ets None None s1 "Inl e" s2] 4(5,6,7)
    show ?thesis by auto
  next
    assume "strs s fks = []"
    with windows_loop_no_windows [OF 4(6)] 4(5) show ?thesis by simp
  qed
  with 4(1,2) q show ?case by auto
next
  case (5 lp s1 s2)
  note q = furnsh_exists_quiet [OF furnsh_only [of ops kernels s], where p = output_ck and r = "Inr False"]
  from windows_loop_inv [OF 5(6)] 5(7) have inv: "loop_inv None (Inr None) lp" by simp
  then have z: "written lp = [] \<Longrightarrow> lp = []" by (simp add: loop_inv_def)
  have "frames = [] \<or> strs s fks = [] \<Longrightarrow> lp = []"
  proof (erule disjE)
    assume "frames = []"
    with windows_loop_no_frames [of ops doVerbose output_ck fks stop_ets None None s1 "Inr None" s2] 5(5,6,7)
    show ?thesis by auto
  next
    assume "strs s fks = []"
    with windows_loop_no_windows [OF 5(6)] 5(5,7) show ?thesis by simp
  qed
  with 5(1,2) q z show ?case by auto
next
  case (6 lp hdl s1 s2)
  from windows_loop_inv [OF 6(5)] 6(6) have inv: "loop_inv None (Inr (Some hdl)) lp" by simp
  then have z: "written lp \<noteq> []" by (auto simp: loop_inv_def)
  have "frames = [] \<or> strs s fks = [] \<Longrightarrow> False"
  proof (erule disjE)
    assume "frames = []"
    with windows_loop_no_frames [of ops doVerbose output_ck fks stop_ets None None s1 "Inr (Some hdl)" s2]
      6(4,5,6) z
    show ?thesis by auto
  next
    assume "strs s fks = []"
    with windows_loop_no_windows [OF 6(5)] 6(4) show ?thesis by simp
  qed
  with 6(1) z show ?case by auto
qed

theorem create_ck_empty_witness:
  "result_of (furnsh_all toy [''naif0012.tls'']) s0 = Inr ()
   \<and> sp_exists toy (trace s0 @ events_of (furnsh_all toy [''naif0012.tls'']) s0) ''out.bc'' = Inr False
   \<and> length (strs s0 2) \<le> length (reals s0 3)
   \<and> result_of (create_ck toy False [''naif0012.tls''] [] 2 3 ''out.bc'') s0 = Inr ()
   \<and> list_all (\<lambda>ev. is_Furnsh ev \<or> is_Exists ev)
        (events_of (create_ck toy False [''naif0012.tls''] [] 2 3 ''out.bc'') s0)"
proof -
  have f: "result_of (furnsh_all toy [''naif0012.tls'']) s0 = Inr ()" by (rule toy_furnsh_all)
  have e: "sp_exists toy (trace s0 @ events_of (furnsh_all toy [''naif0012.tls'']) s0) ''out.bc'' = Inr False"
    by (simp add: run_defs toy_def s0_def)
  have l: "length (strs s0 2) \<le> length (reals s0 3)" by (simp add: s0_def)
  from create_ck_empty [where ops = toy and kernels = "[''naif0012.tls'']" and s = s0
      and output_ck = "''out.bc''" and doVerbose = False and frames = "[]"
      and fks = 2 and stop_ets = 3] f e l
  show ?thesis by simp
qed

text \<open>The calls of \<^verbatim>\<open>create_ck\<close> after its \<^verbatim>\<open>sp.exists\<close>, which are those of its loop and
  the closing call, keep the order of calls around the old FKs.\<close>

lemma create_ck_fk_scan:
  fixes ops doVerbose kernels frames fks stop_ets output_ck s
  defines "evs \<equiv> events_of (create_ck ops doVerbose kernels frames fks stop_ets output_ck) s"
  defines "res \<equiv> result_of (create_ck ops doVerbose kernels frames fks stop_ets output_ck) s"
  shows "fk_scan Idle (tl (dropWhile (\<lambda>ev. \<not> is_Exists ev) evs)) \<noteq> None \<and>
         (res = Inr () \<longrightarrow> fk_scan Idle (tl (dropWhile (\<lambda>ev. \<not> is_Exists ev) evs)) = Some Idle)"
proof -
  note pre = furnsh_only [of ops kernels s]
  have dw: "\<And>x rest. is_Exists x \<Longrightarrow>
      tl (dropWhile (\<lambda>ev. \<not> is_Exists ev) (events_of (furnsh_all ops kernels) s @ [x] @ rest)) = rest"
    using pre by (subst dropWhile_append2) (auto simp: list_all_iff is_Furnsh_def)
  have dn: "tl (dropWhile (\<lambda>ev. \<not> is_Exists ev) (events_of (furnsh_all ops kernels) s)) = []"
    using pre by (subst dropWhile_eq_Nil_conv [THEN iffD2]) (auto simp: list_all_iff is_Furnsh_def)
  show ?thesis
  proof (rule create_ck_cases [of ops doVerbose kernels frames fks stop_ets output_ck s],
      fold evs_def res_def, goal_cases)
    case (1 e)
    with dn show ?case by simp
  next
    case (2 e)
    with dw [of "Exists output_ck (Inl e)" "[]"] show ?case by simp
  next
    case 3
    with dw [of "Exists output_ck (Inr True)" "[]"] show ?case by simp
  next
    case (4 lp e s1 s2)
    from windows_loop_inv [OF 4(6)] 4(7) have "fk_scan Idle lp \<noteq> None" by (simp add: loop_inv_def)
    with dw [of "Exists output_ck (Inr False)" lp] 4(1,2) show ?case by simp
  next
    case (5 lp s1 s2)
    from windows_loop_inv [OF 5(6)] 5(7) have "fk_scan Idle lp = Some Idle" by (simp add: loop_inv_def)
    with dw [of "Exists output_ck (Inr False)" lp] 5(1,2) show ?case by simp
  next
    case (6 lp hdl s1 s2)
    from windows_loop_inv [OF 6(5)] 6(6) have "fk_scan Idle lp = Some Idle" by (simp add: loop_inv_def)
    then have "fk_scan Idle (lp @ [Ckcls hdl res]) = Some Idle" by (simp add: fk_scan_append)
    moreover have "tl (dropWhile (\<lambda>ev. \<not> is_Exists ev) evs) = lp @ [Ckcls hdl res]"
      using dw [of "Exists output_ck (Inr False)" "lp @ [Ckcls hdl res]"] 6(1) by simp
    ultimately show ?case by (simp only: option.simps simp_thms)
  qed
qed

end
